theory Spec2Isabelle
  imports Main "HOL-Library.List_Lexorder" "HOL-Library.Multiset"
begin

section \<open>The Tadu crawler (server.js): a shallow embedding\<close>

text \<open>
  The program is an Express server with one working route, \<^verbatim>\<open>GET /crawl\<close>. It fetches a
  listing page, reads the book identifiers off it, and for each book fetches the book page
  and the first chapters. This theory embeds every function of \<^verbatim>\<open>server.js\<close> as a HOL
  function.

  What lies outside the file is a parameter of the embedding, collected in the record
  \<open>env\<close>: the network behind \<^verbatim>\<open>axios.get\<close>, the HTML parser behind \<^verbatim>\<open>cheerio.load\<close>,
  \<^verbatim>\<open>parseInt\<close>, the largest array the platform builds, and the order in which concurrent
  tasks complete. Console output and the
  request headers and timeout handed to axios are left out: a timeout is one of the ways the
  network fails.
\<close>

subsection \<open>Strings and numbers of JavaScript\<close>

text \<open>
  A JavaScript string is a sequence of UTF-16 code units; a code unit is a natural number here.
  \<open>js\<close> turns an ASCII literal into such a string.
\<close>

type_synonym jsstring = "nat list"

definition js :: "string \<Rightarrow> jsstring" where
  "js s = map of_char s"

text \<open>\<^verbatim>\<open>s.startsWith(p)\<close> and \<^verbatim>\<open>s.includes(p)\<close>.\<close>

definition startsWith :: "jsstring \<Rightarrow> jsstring \<Rightarrow> bool" where
  "startsWith p s = (take (length p) s = p)"

fun includes_str :: "jsstring \<Rightarrow> jsstring \<Rightarrow> bool" where
  "includes_str p [] = (p = [])"
| "includes_str p (c # s) = (startsWith p (c # s) \<or> includes_str p s)"

text \<open>\<^verbatim>\<open>s.replace(pat, rep)\<close> with a string pattern: the first occurrence only.\<close>

fun replace_first :: "jsstring \<Rightarrow> jsstring \<Rightarrow> jsstring \<Rightarrow> jsstring" where
  "replace_first pat rep [] = (if pat = [] then rep else [])"
| "replace_first pat rep (c # s) =
     (if startsWith pat (c # s) then rep @ drop (length pat) (c # s)
      else c # replace_first pat rep s)"

text \<open>
  \<^verbatim>\<open>s.trim()\<close> removes the WhiteSpace and LineTerminator code units of ECMAScript from both
  ends.
\<close>

definition is_js_space :: "nat \<Rightarrow> bool" where
  "is_js_space c =
     (c \<in> {0x9, 0xA, 0xB, 0xC, 0xD, 0x20, 0xA0, 0x1680, 0x2028, 0x2029, 0x202F, 0x205F,
           0x3000, 0xFEFF}
      \<or> (0x2000 \<le> c \<and> c \<le> 0x200A))"

definition trim :: "jsstring \<Rightarrow> jsstring" where
  "trim s = rev (dropWhile is_js_space (rev (dropWhile is_js_space s)))"

text \<open>The class \<^verbatim>\<open>\d\<close> of a regular expression without the unicode flag: 0 to 9.\<close>

definition is_digit :: "nat \<Rightarrow> bool" where
  "is_digit c = (48 \<le> c \<and> c \<le> 57)"

text \<open>
  The numbers of the program are results of \<^verbatim>\<open>parseInt\<close> and array indices: integers, NaN,
  or an infinity (what \<^verbatim>\<open>parseInt\<close> rounds a very long digit string to).
\<close>

datatype jsnum = NaN | Finite int | PosInfinity | NegInfinity

fun decimal :: "nat \<Rightarrow> jsstring" where
  "decimal n = (if n < 10 then [48 + n] else decimal (n div 10) @ [48 + n mod 10])"

declare decimal.simps [simp del]

text \<open>
  Number to string, as template literals and \<^verbatim>\<open>replace\<close> apply it: the decimal digits of
  an integer. This is what JavaScript prints up to \<open>2\<^sup>5\<^sup>3\<close> in magnitude. Beyond that it
  prints the shortest digits that give the same number back, and an exponent form from
  \<open>10\<^sup>2\<^sup>1\<close> on; the only number of that size that the program prints is a page number of
  more than 15 digits, inside the listing URL, and the text of that URL then differs from the
  one built here.
\<close>

fun NumberToString :: "jsnum \<Rightarrow> jsstring" where
  "NumberToString NaN = js ''NaN''"
| "NumberToString PosInfinity = js ''Infinity''"
| "NumberToString NegInfinity = js ''-Infinity''"
| "NumberToString (Finite i) = (if i < 0 then js ''-'' @ decimal (nat (- i)) else decimal (nat i))"

subsection \<open>Documents and selectors (cheerio)\<close>

text \<open>
  A parsed document is a forest of nodes. Attributes are kept in document order; the parser
  keeps one value per attribute name.
\<close>

datatype node =
    Element (tagName: jsstring) (attribs: "(jsstring \<times> jsstring) list") (childNodes: "node list")
  | TextNode jsstring
  | Comment jsstring

type_synonym document = "node list"

text \<open>All element nodes below (and including) a node, in document order.\<close>

fun elements :: "node \<Rightarrow> node list" where
  "elements (Element t a cs) = Element t a cs # concat (map elements cs)"
| "elements (TextNode s) = []"
| "elements (Comment s) = []"

definition all_elements :: "document \<Rightarrow> node list" where
  "all_elements doc = concat (map elements doc)"

text \<open>\<^verbatim>\<open>$(selector)\<close> for a simple selector: the matching elements in document order.\<close>

definition select :: "(node \<Rightarrow> bool) \<Rightarrow> document \<Rightarrow> node list" where
  "select p doc = filter p (all_elements doc)"

text \<open>
  \<^verbatim>\<open>$("anc desc")\<close>, the descendant combinator: elements matching \<open>q\<close> that lie below an
  element matching \<open>p\<close>. The flag says whether such an ancestor has been passed.
\<close>

fun below :: "(node \<Rightarrow> bool) \<Rightarrow> (node \<Rightarrow> bool) \<Rightarrow> bool \<Rightarrow> node \<Rightarrow> node list" where
  "below p q inside (Element t a cs) =
     (if inside \<and> q (Element t a cs) then [Element t a cs] else [])
     @ concat (map (below p q (inside \<or> p (Element t a cs))) cs)"
| "below p q inside (TextNode s) = []"
| "below p q inside (Comment s) = []"

definition select_below :: "(node \<Rightarrow> bool) \<Rightarrow> (node \<Rightarrow> bool) \<Rightarrow> document \<Rightarrow> node list" where
  "select_below p q doc = concat (map (below p q False) doc)"

text \<open>The attribute of one element, and \<^verbatim>\<open>.attr(name)\<close> of a selection (its first element).\<close>

fun attr_of :: "jsstring \<Rightarrow> node \<Rightarrow> jsstring option" where
  "attr_of name (Element t a cs) = map_of a name"
| "attr_of name (TextNode s) = None"
| "attr_of name (Comment s) = None"

fun attr :: "jsstring \<Rightarrow> node list \<Rightarrow> jsstring option" where
  "attr name [] = None"
| "attr name (el # els) = attr_of name el"

text \<open>\<^verbatim>\<open>.first()\<close> of a selection.\<close>

fun first :: "node list \<Rightarrow> node list" where
  "first [] = []"
| "first (el # els) = [el]"

text \<open>
  \<^verbatim>\<open>.text()\<close> and \<^verbatim>\<open>$.text()\<close>, as in cheerio 1.x: the text nodes below the selected nodes
  (below the root, for \<^verbatim>\<open>$.text()\<close>), concatenated; comments contribute nothing.
\<close>

fun textContent :: "node \<Rightarrow> jsstring" where
  "textContent (Element t a cs) = concat (map textContent cs)"
| "textContent (TextNode s) = s"
| "textContent (Comment s) = []"

definition text_of :: "node list \<Rightarrow> jsstring" where
  "text_of els = concat (map textContent els)"

text \<open>The parts of a selector: tag name, class, attribute present, attribute equal.\<close>

fun has_tag :: "jsstring \<Rightarrow> node \<Rightarrow> bool" where
  "has_tag t (Element t' a cs) = (t' = t)"
| "has_tag t (TextNode s) = False"
| "has_tag t (Comment s) = False"

definition has_attr :: "jsstring \<Rightarrow> node \<Rightarrow> bool" where
  "has_attr name el = (attr_of name el \<noteq> None)"

definition attr_is :: "jsstring \<Rightarrow> jsstring \<Rightarrow> node \<Rightarrow> bool" where
  "attr_is name v el = (attr_of name el = Some v)"

text \<open>
  A class selector matches a name of the class attribute; the selector engine of cheerio
  separates the names at the white space of regular expressions (\<^verbatim>\<open>\s\<close>), which is the
  white space that \<^verbatim>\<open>trim\<close> removes.
\<close>

fun class_names :: "jsstring \<Rightarrow> jsstring \<Rightarrow> jsstring list" where
  "class_names cur [] = (if cur = [] then [] else [cur])"
| "class_names cur (c # s) =
     (if is_js_space c then (if cur = [] then [] else [cur]) @ class_names [] s
      else class_names (cur @ [c]) s)"

definition has_class :: "jsstring \<Rightarrow> node \<Rightarrow> bool" where
  "has_class cls el =
     (case attr_of (js ''class'') el of None \<Rightarrow> False | Some v \<Rightarrow> cls \<in> set (class_names [] v))"

text \<open>\<^verbatim>\<open>x || ""\<close> for a string that may be undefined.\<close>

fun or_empty :: "jsstring option \<Rightarrow> jsstring" where
  "or_empty None = []"
| "or_empty (Some s) = s"

subsection \<open>The world: requests and pauses\<close>

text \<open>
  What a run does to the outside is the sequence of its events: requests sent and pauses
  taken (\<^verbatim>\<open>setTimeout\<close>, in milliseconds). An asynchronous function takes the events so far
  and returns its outcome, a thrown exception to the left, with the events extended.
\<close>

datatype event = Request jsstring | Sleep nat

type_synonym world = "event list"

datatype exn = AxiosError jsstring | Error jsstring | RangeError jsstring

fun message :: "exn \<Rightarrow> jsstring" where
  "message (AxiosError m) = m"
| "message (Error m) = m"
| "message (RangeError m) = m"

type_synonym 'a async = "world \<Rightarrow> (exn + 'a) \<times> world"

text \<open>
  The body of a response (\<^verbatim>\<open>resp.data\<close>): a string when the body is not JSON, \<^verbatim>\<open>null\<close>, or
  an object. Of an object the program reads \<^verbatim>\<open>status\<close> and \<^verbatim>\<open>data.content\<close>; a status that is
  absent or not an integer is \<open>None\<close>, and so is a content that is absent.
\<close>

datatype payload =
    Str jsstring
  | Null
  | Obj (obj_status: "int option") (obj_content: "jsstring option")

text \<open>
  The environment. \<open>net\<close> answers a request given everything that happened before it, so
  an answer may change from one attempt to the next in any way; \<open>Inl\<close> is a transport
  error, a timeout or a status outside 2xx. \<open>load\<close> is \<^verbatim>\<open>cheerio.load\<close>. \<open>array_limit\<close>
  is the largest length of an array that the platform builds with \<^verbatim>\<open>Array.from\<close>.
  \<open>book_done\<close> and \<open>chapter_done\<close> rank the tasks of the two \<^verbatim>\<open>Promise.all\<close> calls by
  completion time (\<open>chapter_done\<close> per book).
\<close>

record env =
  net :: "world \<Rightarrow> jsstring \<Rightarrow> exn + payload"
  load :: "payload \<Rightarrow> exn + document"
  parseInt :: "jsstring \<Rightarrow> jsnum"
  array_limit :: nat
  book_done :: "nat \<Rightarrow> nat"
  chapter_done :: "jsstring \<Rightarrow> nat \<Rightarrow> nat"

definition axios_get :: "env \<Rightarrow> jsstring \<Rightarrow> payload async" where
  "axios_get E url w = (net E w url, w @ [Request url])"

definition sleep :: "nat \<Rightarrow> world \<Rightarrow> world" where
  "sleep ms w = w @ [Sleep ms]"

text \<open>\<^verbatim>\<open>await\<close>: run the first, hand its value on; an exception skips the rest.\<close>

definition await :: "'a async \<Rightarrow> ('a \<Rightarrow> 'b async) \<Rightarrow> 'b async" where
  "await m f w = (case m w of (Inl e, w') \<Rightarrow> (Inl e, w') | (Inr x, w') \<Rightarrow> f x w')"

definition resolve :: "'a \<Rightarrow> 'a async" where
  "resolve x w = (Inr x, w)"

definition throw :: "exn \<Rightarrow> 'a async" where
  "throw e w = (Inl e, w)"

text \<open>A synchronous step that may throw, inside an asynchronous function.\<close>

definition sync :: "exn + 'a \<Rightarrow> 'a async" where
  "sync r w = (r, w)"

subsection \<open>Configuration\<close>

definition BASE_STORE_URL :: jsstring where
  "BASE_STORE_URL = js ''https://www.tadu.com/store/98-a-0-15-a-20-p-{page}-909''"

definition MAX_BOOK_WORKERS :: nat where
  "MAX_BOOK_WORKERS = 10"

definition MAX_CHAPTER_WORKERS :: nat where
  "MAX_CHAPTER_WORKERS = 5"

definition RETRY_TIMES :: nat where
  "RETRY_TIMES = 3"

definition RETRY_SLEEP_MS :: nat where
  "RETRY_SLEEP_MS = 200"

subsection \<open>safeGet\<close>

text \<open>
  The loop of \<^verbatim>\<open>safeGet\<close>, from \<open>attempt\<close> on. A failed attempt is followed by a pause only
  when another attempt comes. The message of the final error is
  \<^verbatim>\<open>Kh\<close>\<open>\<dots>\<close>\<^verbatim>\<open>ng th\<close>\<open>\<dots>\<close>\<^verbatim>\<open> truy c\<close>\<open>\<dots>\<close>\<^verbatim>\<open>p ${url} sau ${retries} l\<close>\<open>\<dots>\<close>\<^verbatim>\<open>n\<close>, spelled in code units.
\<close>

definition unreachable_message :: "jsstring \<Rightarrow> nat \<Rightarrow> jsstring" where
  "unreachable_message url retries =
     [0x4B, 0x68, 0xF4, 0x6E, 0x67, 0x20, 0x74, 0x68, 0x1EC3, 0x20, 0x74, 0x72, 0x75, 0x79, 0x20,
      0x63, 0x1EAD, 0x70, 0x20]
     @ url @ js '' sau '' @ decimal retries @ [0x20, 0x6C, 0x1EA7, 0x6E]"

function safeGet_from :: "env \<Rightarrow> jsstring \<Rightarrow> nat \<Rightarrow> nat \<Rightarrow> nat \<Rightarrow> payload async" where
  "safeGet_from E url retries sleepMs attempt w =
     (if attempt \<le> retries then
        (case axios_get E url w of
           (Inr data, w1) \<Rightarrow> (Inr data, w1)
         | (Inl err, w1) \<Rightarrow>
             safeGet_from E url retries sleepMs (attempt + 1)
               (if attempt < retries then sleep sleepMs w1 else w1))
      else (Inl (Error (unreachable_message url retries)), w))"
  by pat_completeness auto
termination
  by (relation "measure (\<lambda>(E, url, retries, sleepMs, attempt, w). retries + 1 - attempt)") auto

declare safeGet_from.simps [simp del]

definition safeGet :: "env \<Rightarrow> jsstring \<Rightarrow> nat \<Rightarrow> nat \<Rightarrow> payload async" where
  "safeGet E url retries sleepMs = safeGet_from E url retries sleepMs 1"

subsection \<open>getBookIds\<close>

text \<open>
  The regular expression \<^verbatim>\<open>/\/book\/(\d+)\//\<close>. \<open>match_book_at\<close> matches at the start of the
  string and returns the group; the digits are taken greedily, and giving some back cannot
  help, since a digit would then stand where the closing slash must. \<open>match_book\<close> is
  \<^verbatim>\<open>String.prototype.match\<close>: the leftmost position that matches.
\<close>

definition match_book_at :: "jsstring \<Rightarrow> jsstring option" where
  "match_book_at s =
     (if startsWith (js ''/book/'') s then
        (let r = drop 6 s; ds = takeWhile is_digit r; rest = dropWhile is_digit r
         in if ds \<noteq> [] \<and> startsWith (js ''/'') rest then Some ds else None)
      else None)"

fun match_book :: "jsstring \<Rightarrow> jsstring option" where
  "match_book [] = match_book_at []"
| "match_book (c # s) =
     (case match_book_at (c # s) of Some m \<Rightarrow> Some m | None \<Rightarrow> match_book s)"

text \<open>\<^verbatim>\<open>Set.prototype.add\<close>: a set keeps its members in the order of their first insertion.\<close>

definition Set_add :: "jsstring \<Rightarrow> jsstring list \<Rightarrow> jsstring list" where
  "Set_add x ids = (if x \<in> set ids then ids else ids @ [x])"

text \<open>The selector \<^verbatim>\<open>a.bookImg[href]\<close> and the callback of \<^verbatim>\<open>.each\<close>, run over the selection.\<close>

definition book_link :: "node \<Rightarrow> bool" where
  "book_link el =
     (has_tag (js ''a'') el \<and> has_class (js ''bookImg'') el \<and> has_attr (js ''href'') el)"

fun collect_ids :: "node list \<Rightarrow> jsstring list \<Rightarrow> jsstring list" where
  "collect_ids [] ids = ids"
| "collect_ids (el # els) ids =
     collect_ids els
       (case attr_of (js ''href'') el of
          None \<Rightarrow> ids
        | Some href \<Rightarrow> (case match_book href of None \<Rightarrow> ids | Some m \<Rightarrow> Set_add m ids))"

definition listing_url :: "jsnum \<Rightarrow> jsstring" where
  "listing_url page = replace_first (js ''{page}'') (NumberToString page) BASE_STORE_URL"

text \<open>
  \<^verbatim>\<open>Array.from(ids).sort()\<close>: the default comparison of \<^verbatim>\<open>sort\<close> orders strings by their
  code units, which is the lexicographic order of lists of numbers.
\<close>

definition getBookIds :: "env \<Rightarrow> jsnum \<Rightarrow> jsstring list async" where
  "getBookIds E page =
     await (safeGet E (listing_url page) RETRY_TIMES RETRY_SLEEP_MS) (\<lambda>html.
     await (sync (load E html)) (\<lambda>doc.
     resolve (sort (collect_ids (select book_link doc) []))))"

subsection \<open>crawlBookInfo\<close>

record book_info =
  book_id :: jsstring
  title :: jsstring
  author :: jsstring
  cover_image :: jsstring
  description :: jsstring
  genres :: "jsstring list"
  url :: jsstring

text \<open>The cover image, step by step as in the source. First the lazy-load attribute.\<close>

definition img_data_src :: "node \<Rightarrow> bool" where
  "img_data_src el = (has_tag (js ''img'') el \<and> has_attr (js ''data-src'') el)"

definition lazy_src :: "document \<Rightarrow> jsstring" where
  "lazy_src doc =
     (let img_tag = first (select img_data_src doc)
      in if img_tag \<noteq> [] then or_empty (attr (js ''data-src'') img_tag) else [])"

definition direct_src :: "document \<Rightarrow> jsstring" where
  "direct_src doc =
     (let img_tag = first (select (has_tag (js ''img'')) doc)
      in if img_tag \<noteq> [] then or_empty (attr (js ''src'') img_tag) else [])"

definition pick_img_url :: "document \<Rightarrow> jsstring" where
  "pick_img_url doc = (let img_url = lazy_src doc in if img_url = [] then direct_src doc else img_url)"

definition normalize_url :: "jsstring \<Rightarrow> jsstring" where
  "normalize_url img_url =
     (if startsWith (js ''//'') img_url then js ''https:'' @ img_url
      else if startsWith (js ''/'') img_url then js ''https://www.tadu.com'' @ img_url
      else img_url)"

text \<open>
  The test \<^verbatim>\<open>/https:\/\/media\d+\.tadu\.com\/?\/?$/\<close>. The expression is anchored at the end
  only, so it is tried at every position of the string.
\<close>

definition media_host_at :: "jsstring \<Rightarrow> bool" where
  "media_host_at s =
     (startsWith (js ''https://media'') s \<and>
      (let r = drop 13 s; ds = takeWhile is_digit r; rest = dropWhile is_digit r
       in ds \<noteq> [] \<and> rest \<in> {js ''.tadu.com'', js ''.tadu.com/'', js ''.tadu.com//''}))"

fun media_host_test :: "jsstring \<Rightarrow> bool" where
  "media_host_test [] = media_host_at []"
| "media_host_test (c # s) = (media_host_at (c # s) \<or> media_host_test s)"

definition is_placeholder :: "jsstring \<Rightarrow> bool" where
  "is_placeholder img_url =
     (img_url = [] \<or> media_host_test img_url \<or> includes_str (js ''coverbg.jpg'') img_url)"

definition og_image :: "document \<Rightarrow> jsstring option" where
  "og_image doc =
     attr (js ''content'')
       (select (\<lambda>el. has_tag (js ''meta'') el \<and> attr_is (js ''property'') (js ''og:image'') el) doc)"

definition meta_fallback :: "document \<Rightarrow> jsstring \<Rightarrow> jsstring" where
  "meta_fallback doc img_url =
     (if is_placeholder img_url then
        (case og_image doc of
           None \<Rightarrow> img_url
         | Some metaImg \<Rightarrow> if metaImg \<noteq> [] then metaImg else img_url)
      else img_url)"

definition cover_image_of :: "document \<Rightarrow> jsstring" where
  "cover_image_of doc = meta_fallback doc (normalize_url (pick_img_url doc))"

definition book_url :: "jsstring \<Rightarrow> jsstring" where
  "book_url bookId = js ''https://www.tadu.com/book/'' @ bookId @ js ''/''"

definition extract_info :: "jsstring \<Rightarrow> document \<Rightarrow> book_info" where
  "extract_info bookId doc =
     \<lparr> book_id = bookId,
       title = or_empty (attr (js ''data-name'')
                 (select (\<lambda>el. has_tag (js ''a'') el \<and> has_class (js ''bkNm'') el
                               \<and> has_attr (js ''data-name'') el) doc)),
       author = trim (text_of (select (\<lambda>el. has_tag (js ''span'') el
                               \<and> has_class (js ''author'') el) doc)),
       cover_image = cover_image_of doc,
       description = trim (text_of (select (\<lambda>el. has_tag (js ''p'') el
                               \<and> has_class (js ''intro'') el) doc)),
       genres = map (\<lambda>el. trim (textContent el))
                 (select_below (\<lambda>el. has_tag (js ''div'') el \<and> has_class (js ''sortList'') el)
                    (has_tag (js ''a'')) doc),
       url = book_url bookId \<rparr>"

definition crawlBookInfo :: "env \<Rightarrow> jsstring \<Rightarrow> book_info async" where
  "crawlBookInfo E bookId =
     await (safeGet E (book_url bookId) RETRY_TIMES RETRY_SLEEP_MS) (\<lambda>html.
     await (sync (load E html)) (\<lambda>doc.
     resolve (extract_info bookId doc)))"

subsection \<open>Chapters\<close>

record ChapterRecord =
  index :: nat
  chapter_title :: jsstring
  content :: jsstring

text \<open>
  The default title \<^verbatim>\<open>Ch\<close>\<open>\<dots>\<close>\<^verbatim>\<open>ng ${chapterIndex}\<close>: the Vietnamese word for chapter (its
  third and fourth letters are the code units 0x1B0 and 0x1A1), a space and the index.
\<close>

definition default_title :: "nat \<Rightarrow> jsstring" where
  "default_title chapterIndex = [0x43, 0x68, 0x1B0, 0x1A1, 0x6E, 0x67, 0x20] @ decimal chapterIndex"

definition chapter_url :: "jsstring \<Rightarrow> nat \<Rightarrow> jsstring" where
  "chapter_url bookId chapterIndex =
     js ''https://www.tadu.com/book/'' @ bookId @ js ''/'' @ decimal chapterIndex
     @ js ''/?isfirstpart=true''"

definition pick_title :: "document \<Rightarrow> nat \<Rightarrow> jsstring" where
  "pick_title doc chapterIndex =
     (let h4s = select (has_tag (js ''h4'')) doc
      in if length h4s \<ge> 2 then trim (textContent (h4s ! 1))
         else if length h4s \<ge> 1 then trim (textContent (h4s ! 0))
         else default_title chapterIndex)"

text \<open>The body of the \<^verbatim>\<open>try\<close> block of \<^verbatim>\<open>crawlChapterTitle\<close>.\<close>

definition title_attempt :: "env \<Rightarrow> jsstring \<Rightarrow> nat \<Rightarrow> jsstring async" where
  "title_attempt E bookId chapterIndex =
     await (safeGet E (chapter_url bookId chapterIndex) RETRY_TIMES RETRY_SLEEP_MS) (\<lambda>html.
     await (sync (load E html)) (\<lambda>doc.
     resolve (pick_title doc chapterIndex)))"

text \<open>The loop, from \<open>attempt\<close> on: the \<^verbatim>\<open>catch\<close> block pauses after every failure.\<close>

function crawlChapterTitle_from :: "env \<Rightarrow> jsstring \<Rightarrow> nat \<Rightarrow> nat \<Rightarrow> jsstring async" where
  "crawlChapterTitle_from E bookId chapterIndex attempt w =
     (if attempt \<le> RETRY_TIMES then
        (case title_attempt E bookId chapterIndex w of
           (Inr t, w1) \<Rightarrow> (Inr t, w1)
         | (Inl err, w1) \<Rightarrow>
             crawlChapterTitle_from E bookId chapterIndex (attempt + 1) (sleep RETRY_SLEEP_MS w1))
      else (Inr (default_title chapterIndex), w))"
  by pat_completeness auto
termination
  by (relation "measure (\<lambda>(E, bookId, chapterIndex, attempt, w). RETRY_TIMES + 1 - attempt)") auto

declare crawlChapterTitle_from.simps [simp del]

definition crawlChapterTitle :: "env \<Rightarrow> jsstring \<Rightarrow> nat \<Rightarrow> jsstring async" where
  "crawlChapterTitle E bookId chapterIndex = crawlChapterTitle_from E bookId chapterIndex 1"

definition content_url :: "jsstring \<Rightarrow> nat \<Rightarrow> jsstring" where
  "content_url bookId chapterIndex =
     js ''https://www.tadu.com/getPartContentByCodeTable/'' @ bookId @ js ''/''
     @ decimal chapterIndex"

text \<open>
  \<^verbatim>\<open>!data || data.status !== 200\<close>: \<^verbatim>\<open>null\<close> and the empty string are falsy, a string has no
  \<^verbatim>\<open>status\<close>, and an object passes only with the number 200.
\<close>

fun bad_status :: "payload \<Rightarrow> bool" where
  "bad_status Null = True"
| "bad_status (Str s) = True"
| "bad_status (Obj st c) = (st \<noteq> Some 200)"

text \<open>
  The message \<^verbatim>\<open>Status ${data?.status}\<close>; it only reaches the console. A status that is not
  an integer is printed as \<^verbatim>\<open>undefined\<close> here.
\<close>

fun status_message :: "payload \<Rightarrow> jsstring" where
  "status_message (Obj (Some st) c) = js ''Status '' @ NumberToString (Finite st)"
| "status_message p = js ''Status undefined''"

text \<open>\<^verbatim>\<open>data.data?.content || ""\<close>.\<close>

fun content_field :: "payload \<Rightarrow> jsstring" where
  "content_field (Obj st c) = or_empty c"
| "content_field p = []"

text \<open>\<^verbatim>\<open>.replace(/\r/g, "")\<close>.\<close>

definition remove_cr :: "jsstring \<Rightarrow> jsstring" where
  "remove_cr s = filter (\<lambda>c. c \<noteq> 0xD) s"

text \<open>The body of the \<^verbatim>\<open>try\<close> block of \<^verbatim>\<open>crawlChapterContent\<close>.\<close>

definition content_attempt :: "env \<Rightarrow> jsstring \<Rightarrow> nat \<Rightarrow> jsstring async" where
  "content_attempt E bookId chapterIndex =
     await (safeGet E (content_url bookId chapterIndex) RETRY_TIMES RETRY_SLEEP_MS) (\<lambda>data.
     if bad_status data then throw (Error (status_message data))
     else await (sync (load E (Str (content_field data)))) (\<lambda>doc.
          resolve (remove_cr (text_of doc))))"

function crawlChapterContent_from :: "env \<Rightarrow> jsstring \<Rightarrow> nat \<Rightarrow> nat \<Rightarrow> jsstring async" where
  "crawlChapterContent_from E bookId chapterIndex attempt w =
     (if attempt \<le> RETRY_TIMES then
        (case content_attempt E bookId chapterIndex w of
           (Inr t, w1) \<Rightarrow> (Inr t, w1)
         | (Inl err, w1) \<Rightarrow>
             crawlChapterContent_from E bookId chapterIndex (attempt + 1) (sleep RETRY_SLEEP_MS w1))
      else (Inr [], w))"
  by pat_completeness auto
termination
  by (relation "measure (\<lambda>(E, bookId, chapterIndex, attempt, w). RETRY_TIMES + 1 - attempt)") auto

declare crawlChapterContent_from.simps [simp del]

definition crawlChapterContent :: "env \<Rightarrow> jsstring \<Rightarrow> nat \<Rightarrow> jsstring async" where
  "crawlChapterContent E bookId chapterIndex = crawlChapterContent_from E bookId chapterIndex 1"

subsection \<open>Promise.all and pLimit\<close>

text \<open>
  \<^verbatim>\<open>Promise.all\<close> over tasks that run concurrently. \<open>rank\<close> gives each task, by its position,
  its completion time; the tasks are run one after the other in that order. A value goes to
  the place of its task, whenever the task completes: \<open>values\<close> holds the pairs of position
  and value, ordered by position. The first rejection is the one \<^verbatim>\<open>Promise.all\<close> rejects
  with; the tasks after it still run, since nothing cancels them.

  Running the tasks one after the other loses no behaviour: an answer of \<open>net\<close> may depend on
  all earlier events, each task of the program sends its requests in sequence, and so any
  interleaved run gives the answers that some \<open>net\<close> gives to the tasks run in a row.
\<close>

fun settle ::
  "'a async list \<Rightarrow> nat list \<Rightarrow> exn option \<Rightarrow> (nat \<times> 'a) list \<Rightarrow> world
   \<Rightarrow> (exn option \<times> (nat \<times> 'a) list) \<times> world" where
  "settle tasks [] rejected values w = ((rejected, values), w)"
| "settle tasks (i # order) rejected values w =
     (case (tasks ! i) w of
        (Inl e, w') \<Rightarrow>
          settle tasks order (case rejected of None \<Rightarrow> Some e | Some e0 \<Rightarrow> Some e0) values w'
      | (Inr v, w') \<Rightarrow> settle tasks order rejected (insort_key fst (i, v) values) w')"

definition Promise_all :: "(nat \<Rightarrow> nat) \<Rightarrow> 'a async list \<Rightarrow> 'a list async" where
  "Promise_all rank tasks w =
     (case settle tasks (sort_key rank [0..<length tasks]) None [] w of
        ((Some e, values), w') \<Rightarrow> (Inl e, w')
      | ((None, values), w') \<Rightarrow> (Inr (map snd values), w'))"

text \<open>
  \<^verbatim>\<open>pLimit(cap)\<close> gives a wrapper that holds a task back while \<open>cap\<close> tasks are running. It
  changes when a task runs, not what it returns: it narrows the completion orders that can
  occur, and the properties below hold for every order.
\<close>

definition pLimit :: "nat \<Rightarrow> 'a async \<Rightarrow> 'a async" where
  "pLimit cap task = task"

subsection \<open>crawlFirstNChapters\<close>

text \<open>
  \<^verbatim>\<open>Array.from({ length: n }, (_, i) => i + 1)\<close>. The length of the array-like is
  \<open>ToLength n\<close>: NaN and negative numbers give 0, and the result is capped at \<open>2\<^sup>5\<^sup>3 - 1\<close>.
  The array is then constructed with that length. The language makes the constructor throw
  a RangeError when the length is not below \<open>2\<^sup>3\<^sup>2\<close>; a platform throws it earlier, beyond
  the largest length it builds (Node.js from \<open>2\<^sup>2\<^sup>7\<close> on). \<open>max_length\<close> is the largest
  length that passes both. A platform may also accept a length and run out of memory while
  it fills the array, which ends the process; that outcome is not represented: every length
  beyond \<open>max_length\<close> is refused with the RangeError.
\<close>

fun ToLength :: "jsnum \<Rightarrow> nat" where
  "ToLength NaN = 0"
| "ToLength NegInfinity = 0"
| "ToLength PosInfinity = 2 ^ 53 - 1"
| "ToLength (Finite i) = (if i \<le> 0 then 0 else min (nat i) (2 ^ 53 - 1))"

definition max_length :: "env \<Rightarrow> nat" where
  "max_length E = min (2 ^ 32 - 1) (array_limit E)"

definition chapter_indices :: "env \<Rightarrow> jsnum \<Rightarrow> exn + nat list" where
  "chapter_indices E n =
     (let len = ToLength n
      in if len > max_length E then Inl (RangeError (js ''Invalid array length''))
         else Inr (map (\<lambda>i. i + 1) [0..<len]))"

text \<open>The task of one chapter: the title, then the content.\<close>

definition chapter_task :: "env \<Rightarrow> jsstring \<Rightarrow> nat \<Rightarrow> ChapterRecord async" where
  "chapter_task E bookId i =
     await (crawlChapterTitle E bookId i) (\<lambda>t.
     await (crawlChapterContent E bookId i) (\<lambda>c.
     resolve \<lparr> index = i, chapter_title = t, content = c \<rparr>))"

definition crawlFirstNChapters :: "env \<Rightarrow> jsstring \<Rightarrow> jsnum \<Rightarrow> ChapterRecord list async" where
  "crawlFirstNChapters E bookId n =
     await (sync (chapter_indices E n)) (\<lambda>indices.
     await (Promise_all (chapter_done E bookId)
              (map (\<lambda>i. pLimit MAX_CHAPTER_WORKERS (chapter_task E bookId i)) indices))
       (\<lambda>chapters. resolve chapters))"

subsection \<open>The route /crawl\<close>

record book = book_info +
  chapters :: "ChapterRecord list"

datatype body = Results "book list" | ErrorBody jsstring

datatype response = Response (status: nat) (json: body)

text \<open>\<^verbatim>\<open>req.query.x || dflt\<close>: an absent or empty parameter takes the default.\<close>

fun or_default :: "jsstring option \<Rightarrow> jsstring \<Rightarrow> jsstring" where
  "or_default None dflt = dflt"
| "or_default (Some s) dflt = (if s = [] then dflt else s)"

text \<open>The message of the 404 response, \<^verbatim>\<open>Kh\<close>\<open>\<dots>\<close>\<^verbatim>\<open>ng t\<close>\<open>\<dots>\<close>\<^verbatim>\<open>m th\<close>\<open>\<dots>\<close>\<^verbatim>\<open>y book n\<close>\<open>\<dots>\<close>\<^verbatim>\<open>o\<close>.\<close>

definition no_book_message :: jsstring where
  "no_book_message =
     [0x4B, 0x68, 0xF4, 0x6E, 0x67, 0x20, 0x74, 0xEC, 0x6D, 0x20, 0x74, 0x68, 0x1EA5, 0x79, 0x20,
      0x62, 0x6F, 0x6F, 0x6B, 0x20, 0x6E, 0xE0, 0x6F]"

text \<open>The task of one book: the metadata, then the chapters, attached to the record.\<close>

definition book_task :: "env \<Rightarrow> jsstring \<Rightarrow> jsnum \<Rightarrow> book async" where
  "book_task E bookId numChapters =
     await (crawlBookInfo E bookId) (\<lambda>info.
     await (crawlFirstNChapters E bookId numChapters) (\<lambda>chs.
     resolve (book_info.extend info \<lparr> chapters = chs \<rparr>)))"

text \<open>The body of the \<^verbatim>\<open>try\<close> block of the handler.\<close>

definition crawl_body :: "env \<Rightarrow> jsnum \<Rightarrow> jsnum \<Rightarrow> response async" where
  "crawl_body E pageNum numChapters =
     await (getBookIds E pageNum) (\<lambda>bookIds.
     if bookIds = [] then resolve (Response 404 (ErrorBody no_book_message))
     else await (Promise_all (book_done E)
                   (map (\<lambda>bookId. pLimit MAX_BOOK_WORKERS (book_task E bookId numChapters)) bookIds))
            (\<lambda>results. resolve (Response 200 (Results results))))"

text \<open>
  The handler, given the two query parameters as the request carries them. Whatever the
  \<^verbatim>\<open>try\<close> block throws becomes the 500 response.
\<close>

definition crawl ::
  "env \<Rightarrow> jsstring option \<Rightarrow> jsstring option \<Rightarrow> world \<Rightarrow> response \<times> world" where
  "crawl E page num_chapters w =
     (let pageNum = parseInt E (or_default page (js ''1''));
          numChapters = parseInt E (or_default num_chapters (js ''5''))
      in case crawl_body E pageNum numChapters w of
           (Inr res, w') \<Rightarrow> (res, w')
         | (Inl err, w') \<Rightarrow> (Response 500 (ErrorBody (message err)), w'))"

section \<open>Notions used to state the properties\<close>

text \<open>A target is dead when every request to it fails, whatever happened before.\<close>

definition dead :: "env \<Rightarrow> jsstring \<Rightarrow> bool" where
  "dead E u = (\<forall>w. isl (net E w u))"

text \<open>How often a URL was requested.\<close>

definition requests_to :: "jsstring \<Rightarrow> world \<Rightarrow> nat" where
  "requests_to u w = length (filter (\<lambda>e. e = Request u) w)"

text \<open>
  The events of \<open>n\<close> failed attempts of \<^verbatim>\<open>safeGet\<close>, and of \<open>k\<close> failed rounds of a chapter
  function, each round a failed \<^verbatim>\<open>safeGet\<close> and the pause of the \<^verbatim>\<open>catch\<close> block.
\<close>

fun failures :: "jsstring \<Rightarrow> nat \<Rightarrow> nat \<Rightarrow> world" where
  "failures u sleepMs 0 = []"
| "failures u sleepMs (Suc 0) = [Request u]"
| "failures u sleepMs (Suc (Suc k)) = Request u # Sleep sleepMs # failures u sleepMs (Suc k)"

fun chapter_failures :: "jsstring \<Rightarrow> nat \<Rightarrow> world" where
  "chapter_failures u 0 = []"
| "chapter_failures u (Suc k) =
     failures u RETRY_SLEEP_MS RETRY_TIMES @ Sleep RETRY_SLEEP_MS # chapter_failures u k"

text \<open>A non-empty run of digits, which is what \<^verbatim>\<open>\d+\<close> matches.\<close>

definition digits :: "jsstring \<Rightarrow> bool" where
  "digits ds = (ds \<noteq> [] \<and> (\<forall>c \<in> set ds. is_digit c))"

text \<open>The identifiers that the pattern finds in the book-cover links of a document.\<close>

definition link_ids :: "document \<Rightarrow> jsstring set" where
  "link_ids doc =
     {m. \<exists>el \<in> set (select book_link doc). \<exists>href.
           attr_of (js ''href'') el = Some href \<and> match_book href = Some m}"

text \<open>The tasks that the handler hands to \<^verbatim>\<open>Promise.all\<close>.\<close>

definition book_tasks :: "env \<Rightarrow> jsnum \<Rightarrow> jsstring list \<Rightarrow> book async list" where
  "book_tasks E numChapters bookIds =
     map (\<lambda>bookId. pLimit MAX_BOOK_WORKERS (book_task E bookId numChapters)) bookIds"

section \<open>A test site\<close>

text \<open>
  Concrete pages and environments, on which the properties are tried out. The parser of the
  test site knows four bodies by name; \<open>site down\<close> is the site with the URLs in \<open>down\<close>
  unreachable. The later a task was started, the earlier it completes there; arrays have up
  to \<open>2\<^sup>2\<^sup>7 - 1\<close> elements there.
\<close>

definition listing_page :: document where
  "listing_page =
     [Element (js ''a'') [(js ''class'', js ''bookImg''), (js ''href'', js ''/book/6/'')] [],
      Element (js ''a'') [(js ''class'', js ''bookImg''), (js ''href'', js ''/book/50/'')] [],
      Element (js ''a'') [(js ''class'', js ''pic bookImg''), (js ''href'', js ''/book/6/?from=list'')] [],
      Element (js ''a'') [(js ''href'', js ''/book/9/'')] []]"

definition book_page :: document where
  "book_page =
     [Element (js ''meta'') [(js ''property'', js ''og:image''), (js ''content'', js ''https://img.tadu.com/og.jpg'')] [],
      Element (js ''a'') [(js ''class'', js ''bkNm''), (js ''data-name'', js ''Book'')] [],
      Element (js ''img'') [(js ''src'', js ''/direct.jpg'')] [],
      Element (js ''img'') [(js ''data-src'', js ''//media3.tadu.com/lazy.jpg''), (js ''src'', js ''/other.jpg'')] []]"

definition placeholder_page :: document where
  "placeholder_page =
     [Element (js ''meta'') [(js ''property'', js ''og:image''), (js ''content'', js ''https://img.tadu.com/og.jpg'')] [],
      Element (js ''img'') [(js ''src'', js ''https://media3.tadu.com/'')] []]"

definition bare_host_page :: document where
  "bare_host_page = [Element (js ''img'') [(js ''src'', js ''https://media3.tadu.com/'')] []]"

definition empty_lazy_page :: document where
  "empty_lazy_page = [Element (js ''img'') [(js ''data-src'', []), (js ''src'', js ''/a.jpg'')] []]"

definition chapter_page :: document where
  "chapter_page =
     [Element (js ''h4'') [] [TextNode (js ''Book'')],
      Element (js ''h4'') [] [TextNode (js '' Chapter One '')]]"

definition part_page :: document where
  "part_page = [Element (js ''p'') [] [TextNode [0x48, 0x69, 0xD, 0xA]], TextNode (js ''Bye'')]"

definition parser :: "payload \<Rightarrow> exn + document" where
  "parser p =
     (case p of
        Str s \<Rightarrow>
          if s = js ''listing'' then Inr listing_page
          else if s = js ''chapter'' then Inr chapter_page
          else if s = js ''part'' then Inr part_page
          else Inr book_page
      | Null \<Rightarrow> Inl (Error (js ''cheerio.load() expects a string''))
      | Obj st c \<Rightarrow> Inr [])"

definition timeout_error :: exn where
  "timeout_error = AxiosError (js ''timeout of 15000ms exceeded'')"

definition site :: "(jsstring \<Rightarrow> bool) \<Rightarrow> env" where
  "site down =
     \<lparr> net = (\<lambda>w u.
         if down u then Inl timeout_error
         else if includes_str (js ''/store/'') u then Inr (Str (js ''listing''))
         else if includes_str (js ''/getPart'') u then Inr (Obj (Some 200) (Some (js ''part'')))
         else if includes_str (js ''isfirstpart'') u then Inr (Str (js ''chapter''))
         else Inr (Str (js ''book''))),
       load = parser,
       parseInt = (\<lambda>s.
         if s = js ''1'' then Finite 1 else if s = js ''5'' then Finite 5
         else if s = js ''2'' then Finite 2 else if s = js ''0'' then Finite 0 else NaN),
       array_limit = 2 ^ 27 - 1,
       book_done = (\<lambda>i. 10 - i),
       chapter_done = (\<lambda>b i. 10 - i) \<rparr>"

definition online :: env where
  "online = site (\<lambda>u. False)"

definition offline :: env where
  "offline = site (\<lambda>u. True)"

definition chapters_down :: env where
  "chapters_down = site (\<lambda>u. includes_str (js ''/getPart'') u \<or> includes_str (js ''isfirstpart'') u)"

definition book_six_down :: env where
  "book_six_down = site (\<lambda>u. u = book_url (js ''6''))"

definition empty_shop :: env where
  "empty_shop = online \<lparr> load := (\<lambda>p. Inr []) \<rparr>"

definition placeholder_site :: env where
  "placeholder_site = online \<lparr> load := (\<lambda>p. Inr placeholder_page) \<rparr>"

definition bare_host_site :: env where
  "bare_host_site = online \<lparr> load := (\<lambda>p. Inr bare_host_page) \<rparr>"

definition empty_lazy_site :: env where
  "empty_lazy_site = online \<lparr> load := (\<lambda>p. Inr empty_lazy_page) \<rparr>"


section \<open>Lemmas\<close>

subsection \<open>Awaiting, and safeGet on a dead target\<close>

lemma await_Inr: "m w = (Inr x, w') \<Longrightarrow> await m f w = f x w'"
  by (simp add: await_def)

lemma await_Inl: "m w = (Inl e, w') \<Longrightarrow> await m f w = (Inl e, w')"
  by (simp add: await_def)

lemma dead_Inl: "dead E u \<Longrightarrow> \<exists>e. net E w u = Inl e"
  unfolding dead_def by (metis isl_def)

lemma safeGet_from_dead:
  assumes "dead E u"
  shows "attempt \<le> Suc retries \<Longrightarrow> k = Suc retries - attempt \<Longrightarrow>
         safeGet_from E u retries sleepMs attempt w =
         (Inl (Error (unreachable_message u retries)), w @ failures u sleepMs k)"
proof (induction k arbitrary: attempt w)
  case 0
  then have "retries < attempt" by simp
  then show ?case
    by (subst safeGet_from.simps) simp
next
  case (Suc k)
  obtain e where e: "net E w u = Inl e"
    using dead_Inl [OF assms] by blast
  from Suc.prems have le: "attempt \<le> retries" by simp
  show ?case
  proof (cases "attempt < retries")
    case True
    then obtain j where j: "k = Suc j"
      using Suc.prems by (cases k) auto
    have "safeGet_from E u retries sleepMs attempt w =
          safeGet_from E u retries sleepMs (attempt + 1) (w @ [Request u, Sleep sleepMs])"
      using le True e by (subst safeGet_from.simps) (simp add: axios_get_def sleep_def)
    also have "\<dots> = (Inl (Error (unreachable_message u retries)),
                      (w @ [Request u, Sleep sleepMs]) @ failures u sleepMs k)"
      using Suc.prems by (intro Suc.IH) simp_all
    finally show ?thesis by (simp add: j)
  next
    case False
    with le have eq: "attempt = retries" by simp
    then have k0: "k = 0" using Suc.prems by simp
    have "safeGet_from E u retries sleepMs attempt w =
          safeGet_from E u retries sleepMs (attempt + 1) (w @ [Request u])"
      using le False e by (subst safeGet_from.simps) (simp add: axios_get_def sleep_def)
    also have "\<dots> = (Inl (Error (unreachable_message u retries)), w @ [Request u])"
      using eq by (subst safeGet_from.simps) simp
    finally show ?thesis by (simp add: k0)
  qed
qed

lemma safeGet_dead:
  "dead E u \<Longrightarrow>
   safeGet E u retries sleepMs w =
   (Inl (Error (unreachable_message u retries)), w @ failures u sleepMs retries)"
  unfolding safeGet_def by (rule safeGet_from_dead) simp_all

lemma requests_to_append [simp]: "requests_to u (w @ v) = requests_to u w + requests_to u v"
  by (simp add: requests_to_def)

lemma requests_to_Nil [simp]: "requests_to u [] = 0"
  by (simp add: requests_to_def)

lemma requests_to_Cons [simp]:
  "requests_to u (e # w) = (if e = Request u then 1 else 0) + requests_to u w"
  by (simp add: requests_to_def)

lemma requests_to_failures [simp]: "requests_to u (failures u sleepMs n) = n"
  by (induction u sleepMs n rule: failures.induct) simp_all

lemma safeGet_ok:
  "net E w u = Inr d \<Longrightarrow> safeGet E u RETRY_TIMES sleepMs w = (Inr d, w @ [Request u])"
  unfolding safeGet_def
  by (subst safeGet_from.simps) (simp add: axios_get_def RETRY_TIMES_def)

subsection \<open>Promise.all\<close>

lemma settle_sorted:
  "settle tasks order rej vals w = ((rej', vals'), w') \<Longrightarrow> sorted (map fst vals) \<Longrightarrow>
   sorted (map fst vals')"
proof (induction order arbitrary: rej vals w)
  case Nil
  then show ?case by simp
next
  case (Cons i order)
  show ?case
  proof (cases "(tasks ! i) w")
    case (Pair r w1)
    show ?thesis
    proof (cases r)
      case (Inl e)
      with Pair Cons.prems show ?thesis
        by (auto dest: Cons.IH)
    next
      case (Inr v)
      with Pair Cons.prems(1)
      have "settle tasks order rej (insort_key fst (i, v) vals) w1 = ((rej', vals'), w')"
        by simp
      moreover have "sorted (map fst (insort_key fst (i, v) vals))"
        using Cons.prems(2) by (simp add: sorted_insort_key)
      ultimately show ?thesis by (rule Cons.IH)
    qed
  qed
qed

lemma settle_indices:
  "settle tasks order rej vals w = ((None, vals'), w') \<Longrightarrow>
   rej = None \<and> mset (map fst vals') = mset order + mset (map fst vals)"
proof (induction order arbitrary: rej vals w)
  case Nil
  then show ?case by simp
next
  case (Cons i order)
  show ?case
  proof (cases "(tasks ! i) w")
    case (Pair r w1)
    show ?thesis
    proof (cases r)
      case (Inl e)
      with Pair Cons.prems
      have "settle tasks order (case rej of None \<Rightarrow> Some e | Some e0 \<Rightarrow> Some e0) vals w1
              = ((None, vals'), w')"
        by simp
      from Cons.IH [OF this] show ?thesis
        by (simp split: option.splits)
    next
      case (Inr v)
      with Pair Cons.prems
      have "settle tasks order rej (insort_key fst (i, v) vals) w1 = ((None, vals'), w')"
        by simp
      from Cons.IH [OF this] show ?thesis
        by simp
    qed
  qed
qed

lemma settle_values:
  "settle tasks order rej vals w = ((rej', vals'), w') \<Longrightarrow> (j, x) \<in> set vals' \<Longrightarrow>
   (j, x) \<in> set vals \<or> (j \<in> set order \<and> (\<exists>w0 w1. (tasks ! j) w0 = (Inr x, w1)))"
proof (induction order arbitrary: rej vals w)
  case Nil
  then show ?case by simp
next
  case (Cons i order)
  show ?case
  proof (cases "(tasks ! i) w")
    case (Pair r w1)
    show ?thesis
    proof (cases r)
      case (Inl e)
      with Pair Cons.prems
      have "settle tasks order (case rej of None \<Rightarrow> Some e | Some e0 \<Rightarrow> Some e0) vals w1
              = ((rej', vals'), w')"
        by simp
      from Cons.IH [OF this Cons.prems(2)] show ?thesis
        by auto
    next
      case (Inr v)
      with Pair Cons.prems
      have "settle tasks order rej (insort_key fst (i, v) vals) w1 = ((rej', vals'), w')"
        by simp
      from Cons.IH [OF this Cons.prems(2)] Pair Inr show ?thesis
        by (auto simp: set_insort_key)
    qed
  qed
qed

lemma settle_rejected_stays:
  "settle tasks order (Some e) vals w = ((rej', vals'), w') \<Longrightarrow> rej' = Some e"
proof (induction order arbitrary: vals w)
  case Nil
  then show ?case by simp
next
  case (Cons i order)
  then show ?case
    by (cases "(tasks ! i) w") (auto split: sum.splits)
qed

lemma settle_rejects:
  "settle tasks order rej vals w = ((rej', vals'), w') \<Longrightarrow> j \<in> set order \<Longrightarrow>
   \<forall>w0. isl (fst ((tasks ! j) w0)) \<Longrightarrow> rej' \<noteq> None"
proof (induction order arbitrary: rej vals w)
  case Nil
  then show ?case by simp
next
  case (Cons i order)
  show ?case
  proof (cases "(tasks ! i) w")
    case (Pair r w1)
    show ?thesis
    proof (cases r)
      case (Inl e)
      with Pair Cons.prems(1)
      have "settle tasks order (case rej of None \<Rightarrow> Some e | Some e0 \<Rightarrow> Some e0) vals w1
              = ((rej', vals'), w')"
        by simp
      then show ?thesis
        by (cases rej) (auto dest: settle_rejected_stays)
    next
      case (Inr v)
      with Pair Cons.prems(3) have "j \<noteq> i"
        by (metis fst_conv sum.disc(2))
      with Cons.prems(2) have j: "j \<in> set order" by simp
      from Inr Pair Cons.prems(1)
      have "settle tasks order rej (insort_key fst (i, v) vals) w1 = ((rej', vals'), w')"
        by simp
      from Cons.IH [OF this j Cons.prems(3)] show ?thesis .
    qed
  qed
qed

lemma settle_all_succeed:
  "\<forall>i \<in> set order. \<forall>w0. \<not> isl (fst ((tasks ! i) w0)) \<Longrightarrow>
   \<exists>vals' w'. settle tasks order rej vals w = ((rej, vals'), w')"
proof (induction order arbitrary: vals w)
  case Nil
  then show ?case by simp
next
  case (Cons i order)
  obtain r w1 where run: "(tasks ! i) w = (r, w1)"
    by (cases "(tasks ! i) w")
  with Cons.prems obtain v where "r = Inr v"
    by (cases r) (auto dest: spec [of _ w])
  with run Cons.IH [of "insort_key fst (i, v) vals" w1] Cons.prems show ?case
    by simp
qed

lemma order_mset: "mset (sort_key rank [0..<n]) = mset [0..<n]"
  by simp

lemma Promise_all_resolved:
  assumes "Promise_all rank tasks w = (Inr rs, w')"
  shows "length rs = length tasks \<and>
         (\<forall>i < length tasks. \<exists>w0 w1. (tasks ! i) w0 = (Inr (rs ! i), w1))"
proof -
  let ?order = "sort_key rank [0..<length tasks]"
  obtain rej vals w1 where st: "settle tasks ?order None [] w = ((rej, vals), w1)"
    by (metis surj_pair)
  with assms have rej: "rej = None" and rs: "rs = map snd vals"
    by (auto simp: Promise_all_def split: option.splits)
  from settle_indices [OF st [unfolded rej]]
  have "mset (map fst vals) = mset [0..<length tasks]"
    by simp
  moreover have "sorted (map fst vals)"
    using settle_sorted [OF st] by simp
  ultimately have idx: "map fst vals = [0..<length tasks]"
    by (metis sorted_upt sorted_sort_id properties_for_sort)
  then have len: "length vals = length tasks"
    by (metis length_map length_upt minus_nat.diff_0)
  have "\<exists>w0 w1. (tasks ! i) w0 = (Inr (rs ! i), w1)" if "i < length tasks" for i
  proof -
    from that len idx have "fst (vals ! i) = i"
      by (metis add_0 nth_map nth_upt)
    then have "(i, rs ! i) \<in> set vals"
      using that len rs by (metis nth_map nth_mem prod.collapse)
    from settle_values [OF st this] show ?thesis by simp
  qed
  with len rs show ?thesis by simp
qed

lemma Promise_all_rejected:
  assumes "j < length tasks" and "\<forall>w0. isl (fst ((tasks ! j) w0))"
  shows "\<exists>e w'. Promise_all rank tasks w = (Inl e, w')"
proof -
  let ?order = "sort_key rank [0..<length tasks]"
  obtain rej vals w1 where st: "settle tasks ?order None [] w = ((rej, vals), w1)"
    by (metis surj_pair)
  have "j \<in> set ?order" using assms(1) by simp
  from settle_rejects [OF st this assms(2)] obtain e where "rej = Some e" by auto
  with st show ?thesis by (simp add: Promise_all_def)
qed

lemma Promise_all_fulfilled:
  assumes "\<forall>i < length tasks. \<forall>w0. \<not> isl (fst ((tasks ! i) w0))"
  shows "\<exists>rs w'. Promise_all rank tasks w = (Inr rs, w')"
proof -
  let ?order = "sort_key rank [0..<length tasks]"
  have "\<forall>i \<in> set ?order. \<forall>w0. \<not> isl (fst ((tasks ! i) w0))"
    using assms by simp
  from settle_all_succeed [OF this, of None "[]" w]
  show ?thesis by (auto simp: Promise_all_def)
qed

subsection \<open>The chapter functions\<close>

lemma getBookIds_dead:
  "dead E (listing_url page) \<Longrightarrow>
   getBookIds E page w =
   (Inl (Error (unreachable_message (listing_url page) RETRY_TIMES)),
    w @ failures (listing_url page) RETRY_SLEEP_MS RETRY_TIMES)"
  by (simp add: getBookIds_def await_def safeGet_dead)

lemma crawlBookInfo_dead:
  "dead E (book_url b) \<Longrightarrow>
   crawlBookInfo E b w =
   (Inl (Error (unreachable_message (book_url b) RETRY_TIMES)),
    w @ failures (book_url b) RETRY_SLEEP_MS RETRY_TIMES)"
  by (simp add: crawlBookInfo_def await_def safeGet_dead)

lemma title_attempt_dead:
  "dead E (chapter_url b i) \<Longrightarrow>
   title_attempt E b i w =
   (Inl (Error (unreachable_message (chapter_url b i) RETRY_TIMES)),
    w @ failures (chapter_url b i) RETRY_SLEEP_MS RETRY_TIMES)"
  by (simp add: title_attempt_def await_def safeGet_dead)

lemma content_attempt_dead:
  "dead E (content_url b i) \<Longrightarrow>
   content_attempt E b i w =
   (Inl (Error (unreachable_message (content_url b i) RETRY_TIMES)),
    w @ failures (content_url b i) RETRY_SLEEP_MS RETRY_TIMES)"
  by (simp add: content_attempt_def await_def safeGet_dead)

lemma crawlChapterTitle_from_dead:
  assumes "dead E (chapter_url b i)"
  shows "attempt \<le> Suc RETRY_TIMES \<Longrightarrow> k = Suc RETRY_TIMES - attempt \<Longrightarrow>
         crawlChapterTitle_from E b i attempt w =
         (Inr (default_title i), w @ chapter_failures (chapter_url b i) k)"
proof (induction k arbitrary: attempt w)
  case 0
  then have "\<not> attempt \<le> RETRY_TIMES" by simp
  then show ?case
    by (subst crawlChapterTitle_from.simps) simp
next
  case (Suc k)
  then have le: "attempt \<le> RETRY_TIMES" by simp
  let ?w1 = "w @ failures (chapter_url b i) RETRY_SLEEP_MS RETRY_TIMES"
  have "crawlChapterTitle_from E b i attempt w =
        crawlChapterTitle_from E b i (attempt + 1) (?w1 @ [Sleep RETRY_SLEEP_MS])"
    using le by (subst crawlChapterTitle_from.simps)
      (simp add: title_attempt_dead [OF assms] sleep_def)
  also have "\<dots> = (Inr (default_title i),
                    (?w1 @ [Sleep RETRY_SLEEP_MS]) @ chapter_failures (chapter_url b i) k)"
    using Suc.prems by (intro Suc.IH) simp_all
  finally show ?case by simp
qed

lemma crawlChapterTitle_dead:
  "dead E (chapter_url b i) \<Longrightarrow>
   crawlChapterTitle E b i w =
   (Inr (default_title i), w @ chapter_failures (chapter_url b i) RETRY_TIMES)"
  unfolding crawlChapterTitle_def by (rule crawlChapterTitle_from_dead) simp_all

lemma crawlChapterContent_from_dead:
  assumes "dead E (content_url b i)"
  shows "attempt \<le> Suc RETRY_TIMES \<Longrightarrow> k = Suc RETRY_TIMES - attempt \<Longrightarrow>
         crawlChapterContent_from E b i attempt w =
         (Inr [], w @ chapter_failures (content_url b i) k)"
proof (induction k arbitrary: attempt w)
  case 0
  then have "\<not> attempt \<le> RETRY_TIMES" by simp
  then show ?case
    by (subst crawlChapterContent_from.simps) simp
next
  case (Suc k)
  then have le: "attempt \<le> RETRY_TIMES" by simp
  let ?w1 = "w @ failures (content_url b i) RETRY_SLEEP_MS RETRY_TIMES"
  have "crawlChapterContent_from E b i attempt w =
        crawlChapterContent_from E b i (attempt + 1) (?w1 @ [Sleep RETRY_SLEEP_MS])"
    using le by (subst crawlChapterContent_from.simps)
      (simp add: content_attempt_dead [OF assms] sleep_def)
  also have "\<dots> = (Inr [],
                    (?w1 @ [Sleep RETRY_SLEEP_MS]) @ chapter_failures (content_url b i) k)"
    using Suc.prems by (intro Suc.IH) simp_all
  finally show ?case by simp
qed

lemma crawlChapterContent_dead:
  "dead E (content_url b i) \<Longrightarrow>
   crawlChapterContent E b i w =
   (Inr [], w @ chapter_failures (content_url b i) RETRY_TIMES)"
  unfolding crawlChapterContent_def by (rule crawlChapterContent_from_dead) simp_all

lemma requests_to_chapter_failures [simp]:
  "requests_to u (chapter_failures u k) = k * RETRY_TIMES"
  by (induction k) simp_all

lemma crawlChapterTitle_from_total:
  "k = Suc RETRY_TIMES - attempt \<Longrightarrow>
   \<exists>t w'. crawlChapterTitle_from E b i attempt w = (Inr t, w')"
proof (induction k arbitrary: attempt w)
  case 0
  then have "\<not> attempt \<le> RETRY_TIMES" by simp
  then show ?case
    by (subst crawlChapterTitle_from.simps) simp
next
  case (Suc k)
  then have le: "attempt \<le> RETRY_TIMES" by simp
  obtain r w1 where run: "title_attempt E b i w = (r, w1)"
    by (cases "title_attempt E b i w")
  show ?case
  proof (cases r)
    case (Inl e)
    have "k = Suc RETRY_TIMES - (attempt + 1)" using Suc.prems by simp
    from Suc.IH [OF this, of "sleep RETRY_SLEEP_MS w1"] le run Inl show ?thesis
      by (subst crawlChapterTitle_from.simps) simp
  next
    case (Inr t)
    with le run show ?thesis
      by (subst crawlChapterTitle_from.simps) simp
  qed
qed

lemma crawlChapterContent_from_total:
  "k = Suc RETRY_TIMES - attempt \<Longrightarrow>
   \<exists>t w'. crawlChapterContent_from E b i attempt w = (Inr t, w')"
proof (induction k arbitrary: attempt w)
  case 0
  then have "\<not> attempt \<le> RETRY_TIMES" by simp
  then show ?case
    by (subst crawlChapterContent_from.simps) simp
next
  case (Suc k)
  then have le: "attempt \<le> RETRY_TIMES" by simp
  obtain r w1 where run: "content_attempt E b i w = (r, w1)"
    by (cases "content_attempt E b i w")
  show ?case
  proof (cases r)
    case (Inl e)
    have "k = Suc RETRY_TIMES - (attempt + 1)" using Suc.prems by simp
    from Suc.IH [OF this, of "sleep RETRY_SLEEP_MS w1"] le run Inl show ?thesis
      by (subst crawlChapterContent_from.simps) simp
  next
    case (Inr t)
    with le run show ?thesis
      by (subst crawlChapterContent_from.simps) simp
  qed
qed

lemma crawlChapterTitle_total: "\<exists>t w'. crawlChapterTitle E b i w = (Inr t, w')"
  unfolding crawlChapterTitle_def by (rule crawlChapterTitle_from_total) simp

lemma crawlChapterContent_total: "\<exists>t w'. crawlChapterContent E b i w = (Inr t, w')"
  unfolding crawlChapterContent_def by (rule crawlChapterContent_from_total) simp

lemma chapter_task_total:
  "\<exists>c w'. chapter_task E b i w = (Inr c, w') \<and> index c = i"
proof -
  obtain t w1 where t: "crawlChapterTitle E b i w = (Inr t, w1)"
    using crawlChapterTitle_total by blast
  obtain c w2 where c: "crawlChapterContent E b i w1 = (Inr c, w2)"
    using crawlChapterContent_total by blast
  show ?thesis
    by (simp add: chapter_task_def await_def t c resolve_def)
qed

lemma title_attempt_ok:
  "safeGet E (chapter_url b i) RETRY_TIMES RETRY_SLEEP_MS w = (Inr p, w1) \<Longrightarrow>
   load E p = Inr doc \<Longrightarrow> title_attempt E b i w = (Inr (pick_title doc i), w1)"
  by (simp add: title_attempt_def await_def sync_def resolve_def)

lemma crawlChapterTitle_from_ok:
  "attempt \<le> RETRY_TIMES \<Longrightarrow>
   safeGet E (chapter_url b i) RETRY_TIMES RETRY_SLEEP_MS w = (Inr p, w1) \<Longrightarrow>
   load E p = Inr doc \<Longrightarrow>
   crawlChapterTitle_from E b i attempt w = (Inr (pick_title doc i), w1)"
  by (subst crawlChapterTitle_from.simps) (simp add: title_attempt_ok)





subsection \<open>The chapter pipeline and the handler\<close>


lemma chapter_indices_ok:
  "ToLength n \<le> max_length E \<Longrightarrow>
   chapter_indices E n = Inr (map (\<lambda>i. i + 1) [0..<ToLength n])"
  by (simp add: chapter_indices_def Let_def)



lemma Promise_all_Nil: "Promise_all rank [] w = (Inr [], w)"
  by (simp add: Promise_all_def)

lemma crawlFirstNChapters_empty:
  "ToLength n = 0 \<Longrightarrow> crawlFirstNChapters E b n w = (Inr [], w)"
  by (simp add: crawlFirstNChapters_def chapter_indices_def await_def sync_def resolve_def
      Promise_all_Nil)

lemma crawlFirstNChapters_ok:
  assumes "ToLength n \<le> max_length E"
  shows "\<exists>chs w'. crawlFirstNChapters E b n w = (Inr chs, w') \<and> length chs = ToLength n \<and>
           (\<forall>i < ToLength n. index (chs ! i) = i + 1)"
proof -
  let ?tasks = "map (\<lambda>i. pLimit MAX_CHAPTER_WORKERS (chapter_task E b i))
                  (map (\<lambda>i. i + 1) [0..<ToLength n])"
  have len: "length ?tasks = ToLength n" by simp
  have task: "?tasks ! i = chapter_task E b (i + 1)" if "i < ToLength n" for i
    using that by (simp add: pLimit_def)
  have "\<forall>i < length ?tasks. \<forall>w0. \<not> isl (fst ((?tasks ! i) w0))"
  proof (intro allI impI)
    fix i w0
    assume "i < length ?tasks"
    then have "?tasks ! i = chapter_task E b (i + 1)"
      using task by simp
    moreover obtain c w1 where "chapter_task E b (i + 1) w0 = (Inr c, w1)"
      using chapter_task_total by blast
    ultimately show "\<not> isl (fst ((?tasks ! i) w0))" by simp
  qed
  then obtain chs w' where run: "Promise_all (chapter_done E b) ?tasks w = (Inr chs, w')"
    using Promise_all_fulfilled by blast
  from Promise_all_resolved [OF run]
  have l: "length chs = ToLength n"
    and each: "\<forall>i < length ?tasks. \<exists>w0 w1. (?tasks ! i) w0 = (Inr (chs ! i), w1)"
    by simp_all
  have "index (chs ! i) = i + 1" if "i < ToLength n" for i
  proof -
    from each that len obtain w0 w1 where "(?tasks ! i) w0 = (Inr (chs ! i), w1)"
      by auto
    then have "chapter_task E b (i + 1) w0 = (Inr (chs ! i), w1)"
      using task [OF that] by simp
    moreover obtain c w2 where "chapter_task E b (i + 1) w0 = (Inr c, w2)" "index c = i + 1"
      using chapter_task_total by blast
    ultimately show ?thesis by simp
  qed
  moreover have "crawlFirstNChapters E b n w = (Inr chs, w')"
    using run by (simp add: crawlFirstNChapters_def chapter_indices_ok [OF assms] await_def
        sync_def resolve_def)
  ultimately show ?thesis using l by blast
qed

lemma crawlBookInfo_ok:
  "safeGet E (book_url b) RETRY_TIMES RETRY_SLEEP_MS w = (Inr p, w1) \<Longrightarrow> load E p = Inr doc \<Longrightarrow>
   crawlBookInfo E b w = (Inr (extract_info b doc), w1)"
  by (simp add: crawlBookInfo_def await_def sync_def resolve_def)

lemma crawlBookInfo_id:
  "crawlBookInfo E b w = (Inr info, w1) \<Longrightarrow> book_id info = b"
  by (auto simp: crawlBookInfo_def await_def sync_def resolve_def extract_info_def
      split: prod.splits sum.splits)

lemma book_task_dead:
  "dead E (book_url b) \<Longrightarrow> isl (fst (book_task E b n w0))"
  by (simp add: book_task_def await_def crawlBookInfo_dead)

lemma book_task_result:
  assumes "book_task E b n w0 = (Inr r, w')"
  shows "book_id r = b \<and> (\<exists>w1 w2. crawlFirstNChapters E b n w1 = (Inr (chapters r), w2))"
proof -
  from assms obtain info w1 where info: "crawlBookInfo E b w0 = (Inr info, w1)"
    by (auto simp: book_task_def await_def split: prod.splits sum.splits)
  with assms obtain chs w2 where chs: "crawlFirstNChapters E b n w1 = (Inr chs, w2)"
    by (auto simp: book_task_def await_def split: prod.splits sum.splits)
  from assms info chs have "r = book_info.extend info \<lparr> chapters = chs \<rparr>"
    by (simp add: book_task_def await_def resolve_def)
  then have "book_id r = book_id info" "chapters r = chs"
    by (simp_all add: book_info.extend_def)
  with crawlBookInfo_id [OF info] chs show ?thesis by blast
qed

lemma book_task_ok:
  assumes "\<forall>w. \<not> isl (fst (crawlBookInfo E b w))" and "ToLength n \<le> max_length E"
  shows "\<not> isl (fst (book_task E b n w0))"
proof -
  from assms(1) obtain info w1 where info: "crawlBookInfo E b w0 = (Inr info, w1)"
    by (metis prod.collapse sum.collapse(2))
  obtain chs w2 where "crawlFirstNChapters E b n w1 = (Inr chs, w2)"
    using crawlFirstNChapters_ok [OF assms(2)] by blast
  with info show ?thesis
    by (simp add: book_task_def await_def resolve_def)
qed

lemma crawl_listing_failed:
  "getBookIds E (parseInt E (or_default qp (js ''1''))) w = (Inl e, w') \<Longrightarrow>
   crawl E qp qn w = (Response 500 (ErrorBody (message e)), w')"
  by (simp add: crawl_def crawl_body_def await_def)

lemma crawl_no_books:
  "getBookIds E (parseInt E (or_default qp (js ''1''))) w = (Inr [], w') \<Longrightarrow>
   crawl E qp qn w = (Response 404 (ErrorBody no_book_message), w')"
  by (simp add: crawl_def crawl_body_def await_def resolve_def)

lemma crawl_books:
  "getBookIds E (parseInt E (or_default qp (js ''1''))) w = (Inr ids, w1) \<Longrightarrow> ids \<noteq> [] \<Longrightarrow>
   crawl E qp qn w =
   (case Promise_all (book_done E) (book_tasks E (parseInt E (or_default qn (js ''5''))) ids) w1 of
      (Inr rs, w') \<Rightarrow> (Response 200 (Results rs), w')
    | (Inl e, w') \<Rightarrow> (Response 500 (ErrorBody (message e)), w'))"
  by (simp add: crawl_def crawl_body_def await_def resolve_def book_tasks_def
      split: prod.splits sum.splits)

lemma crawl_book_dead:
  assumes "getBookIds E (parseInt E (or_default qp (js ''1''))) w = (Inr ids, w1)"
    and "b \<in> set ids" and "dead E (book_url b)"
  shows "status (fst (crawl E qp qn w)) = 500"
proof -
  let ?n = "parseInt E (or_default qn (js ''5''))"
  from assms(2) obtain j where j: "j < length ids" "ids ! j = b"
    by (auto simp: in_set_conv_nth)
  then have "j < length (book_tasks E ?n ids)"
    and "\<forall>w0. isl (fst ((book_tasks E ?n ids ! j) w0))"
    using book_task_dead [OF assms(3)] by (simp_all add: book_tasks_def pLimit_def)
  then obtain e w' where "Promise_all (book_done E) (book_tasks E ?n ids) w1 = (Inl e, w')"
    using Promise_all_rejected by blast
  moreover have "ids \<noteq> []" using assms(2) by auto
  ultimately show ?thesis
    by (simp add: crawl_books [OF assms(1)])
qed

lemma crawl_results:
  assumes "getBookIds E (parseInt E (or_default qp (js ''1''))) w = (Inr ids, w1)"
    and "ids \<noteq> []"
    and "fst (crawl E qp qn w) = Response 200 (Results rs)"
  shows "map book_id rs = ids \<and>
         (\<forall>r \<in> set rs. \<exists>w2 w3. crawlFirstNChapters E (book_id r)
             (parseInt E (or_default qn (js ''5''))) w2 = (Inr (chapters r), w3))"
proof -
  let ?n = "parseInt E (or_default qn (js ''5''))"
  let ?tasks = "book_tasks E ?n ids"
  from assms(3) obtain w' where run: "Promise_all (book_done E) ?tasks w1 = (Inr rs, w')"
    by (auto simp: crawl_books [OF assms(1,2)] split: prod.splits sum.splits)
  from Promise_all_resolved [OF run]
  have len: "length rs = length ids"
    and each: "\<forall>i < length ids. \<exists>w0 w2. (?tasks ! i) w0 = (Inr (rs ! i), w2)"
    by (simp_all add: book_tasks_def)
  have res: "book_id (rs ! i) = ids ! i \<and>
        (\<exists>w2 w3. crawlFirstNChapters E (ids ! i) ?n w2 = (Inr (chapters (rs ! i)), w3))"
    if "i < length ids" for i
  proof -
    from each that obtain w0 w2 where "(?tasks ! i) w0 = (Inr (rs ! i), w2)"
      by blast
    then have "book_task E (ids ! i) ?n w0 = (Inr (rs ! i), w2)"
      using that by (simp add: book_tasks_def pLimit_def)
    from book_task_result [OF this] show ?thesis .
  qed
  have "map book_id rs = ids"
    using len res by (simp add: list_eq_iff_nth_eq)
  moreover have "\<exists>w2 w3. crawlFirstNChapters E (book_id r) ?n w2 = (Inr (chapters r), w3)"
    if "r \<in> set rs" for r
  proof -
    from that len obtain i where "i < length ids" "rs ! i = r"
      by (auto simp: in_set_conv_nth)
    with res [of i] show ?thesis by auto
  qed
  ultimately show ?thesis by blast
qed

lemma crawl_succeeds:
  assumes "getBookIds E (parseInt E (or_default qp (js ''1''))) w = (Inr ids, w1)"
    and "ids \<noteq> []"
    and "\<forall>b \<in> set ids. \<forall>w0. \<not> isl (fst (crawlBookInfo E b w0))"
    and "ToLength (parseInt E (or_default qn (js ''5''))) \<le> max_length E"
  shows "\<exists>rs w'. crawl E qp qn w = (Response 200 (Results rs), w')"
proof -
  let ?n = "parseInt E (or_default qn (js ''5''))"
  let ?tasks = "book_tasks E ?n ids"
  have "\<forall>i < length ?tasks. \<forall>w0. \<not> isl (fst ((?tasks ! i) w0))"
    using assms(3,4) by (simp add: book_tasks_def pLimit_def book_task_ok)
  then obtain rs w' where "Promise_all (book_done E) ?tasks w1 = (Inr rs, w')"
    using Promise_all_fulfilled by blast
  then show ?thesis
    by (simp add: crawl_books [OF assms(1,2)])
qed

lemma crawl_status:
  "status (fst (crawl E qp qn w)) \<in> {200, 404, 500}"
  by (auto simp: crawl_def crawl_body_def await_def resolve_def Let_def
      split: prod.splits sum.splits if_splits)

subsection \<open>The patterns\<close>

lemma startsWith_iff: "startsWith p s \<longleftrightarrow> (\<exists>b. s = p @ b)"
proof
  assume "startsWith p s"
  then have "s = p @ drop (length p) s"
    by (metis append_take_drop_id startsWith_def)
  then show "\<exists>b. s = p @ b" ..
next
  assume "\<exists>b. s = p @ b"
  then show "startsWith p s"
    by (auto simp: startsWith_def)
qed

lemma includes_str_iff: "includes_str p s \<longleftrightarrow> (\<exists>a b. s = a @ p @ b)"
proof (induction s)
  case Nil
  then show ?case by auto
next
  case (Cons c s)
  show ?case
  proof
    assume "includes_str p (c # s)"
    then consider "startsWith p (c # s)" | "includes_str p s" by auto
    then show "\<exists>a b. c # s = a @ p @ b"
    proof cases
      case 1
      then obtain b where "c # s = p @ b" by (auto simp: startsWith_iff)
      then have "c # s = [] @ p @ b" by simp
      then show ?thesis by blast
    next
      case 2
      with Cons.IH obtain a b where "s = a @ p @ b" by blast
      then have "c # s = (c # a) @ p @ b" by simp
      then show ?thesis by blast
    qed
  next
    assume "\<exists>a b. c # s = a @ p @ b"
    then obtain a b where ab: "c # s = a @ p @ b" by blast
    show "includes_str p (c # s)"
    proof (cases a)
      case Nil
      with ab have "startsWith p (c # s)" by (auto simp: startsWith_iff)
      then show ?thesis by simp
    next
      case (Cons c' a')
      with ab have "s = a' @ p @ b" by simp
      with Cons.IH show ?thesis by auto
    qed
  qed
qed

lemma takeWhile_digits:
  "\<forall>c \<in> set ds. is_digit c \<Longrightarrow> t = [] \<or> \<not> is_digit (hd t) \<Longrightarrow>
   takeWhile is_digit (ds @ t) = ds \<and> dropWhile is_digit (ds @ t) = t"
  by (cases t) (simp_all add: takeWhile_append2 dropWhile_append2)

lemma js_length [simp]: "length (js s) = length s"
  by (simp add: js_def)

lemma media_host_at_iff:
  "media_host_at s \<longleftrightarrow>
   (\<exists>ds t. s = js ''https://media'' @ ds @ t \<and> digits ds \<and>
      t \<in> {js ''.tadu.com'', js ''.tadu.com/'', js ''.tadu.com//''})"
proof
  assume m: "media_host_at s"
  let ?r = "drop 13 s"
  have len: "length (js ''https://media'') = 13" by simp
  from m have "take (length (js ''https://media'')) s = js ''https://media''"
    unfolding media_host_at_def startsWith_def by blast
  then have "take 13 s = js ''https://media''"
    by (simp only: len)
  then have "s = js ''https://media'' @ ?r"
    by (metis append_take_drop_id)
  moreover have "?r = takeWhile is_digit ?r @ dropWhile is_digit ?r" by simp
  moreover have "digits (takeWhile is_digit ?r)"
    using m by (auto simp: media_host_at_def Let_def digits_def dest: set_takeWhileD)
  moreover have "dropWhile is_digit ?r \<in> {js ''.tadu.com'', js ''.tadu.com/'', js ''.tadu.com//''}"
    using m by (simp add: media_host_at_def Let_def)
  ultimately show "\<exists>ds t. s = js ''https://media'' @ ds @ t \<and> digits ds \<and>
      t \<in> {js ''.tadu.com'', js ''.tadu.com/'', js ''.tadu.com//''}"
    by metis
next
  assume "\<exists>ds t. s = js ''https://media'' @ ds @ t \<and> digits ds \<and>
      t \<in> {js ''.tadu.com'', js ''.tadu.com/'', js ''.tadu.com//''}"
  then obtain ds t where s: "s = js ''https://media'' @ ds @ t" and ds: "digits ds"
    and t: "t \<in> {js ''.tadu.com'', js ''.tadu.com/'', js ''.tadu.com//''}"
    by blast
  from t have "t = [] \<or> \<not> is_digit (hd t)"
    by (auto simp: js_def is_digit_def)
  with ds have "takeWhile is_digit (ds @ t) = ds \<and> dropWhile is_digit (ds @ t) = t"
    by (intro takeWhile_digits) (simp_all add: digits_def)
  moreover have "drop 13 s = ds @ t" "startsWith (js ''https://media'') s"
    using s by (simp_all add: startsWith_iff)
  ultimately show "media_host_at s"
    using ds t by (simp add: media_host_at_def Let_def digits_def)
qed

lemma media_host_test_iff:
  "media_host_test s \<longleftrightarrow>
   (\<exists>a ds t. s = a @ js ''https://media'' @ ds @ t \<and> digits ds \<and>
      t \<in> {js ''.tadu.com'', js ''.tadu.com/'', js ''.tadu.com//''})"
  (is "_ \<longleftrightarrow> ?R s")
proof (induction s)
  case Nil
  have "\<not> media_host_at []"
    by (simp add: media_host_at_def startsWith_def js_def)
  moreover have "\<not> ?R []"
    by (simp add: js_def)
  ultimately show ?case by simp
next
  case (Cons c s)
  show ?case
  proof
    assume "media_host_test (c # s)"
    then consider "media_host_at (c # s)" | "media_host_test s" by auto
    then show "?R (c # s)"
    proof cases
      case 1
      then obtain ds t where "c # s = [] @ js ''https://media'' @ ds @ t" "digits ds"
        "t \<in> {js ''.tadu.com'', js ''.tadu.com/'', js ''.tadu.com//''}"
        by (auto simp: media_host_at_iff)
      then show ?thesis by blast
    next
      case 2
      with Cons.IH obtain a ds t where "s = a @ js ''https://media'' @ ds @ t" "digits ds"
        "t \<in> {js ''.tadu.com'', js ''.tadu.com/'', js ''.tadu.com//''}"
        by blast
      then have "c # s = (c # a) @ js ''https://media'' @ ds @ t \<and> digits ds \<and>
        t \<in> {js ''.tadu.com'', js ''.tadu.com/'', js ''.tadu.com//''}"
        by simp
      then show ?thesis by blast
    qed
  next
    assume "?R (c # s)"
    then obtain a ds t where s: "c # s = a @ js ''https://media'' @ ds @ t" and ds: "digits ds"
      and t: "t \<in> {js ''.tadu.com'', js ''.tadu.com/'', js ''.tadu.com//''}"
      by blast
    show "media_host_test (c # s)"
    proof (cases a)
      case Nil
      with s ds t have "media_host_at (c # s)"
        unfolding media_host_at_iff by auto
      then show ?thesis by simp
    next
      case (Cons c' a')
      with s have "s = a' @ js ''https://media'' @ ds @ t" by simp
      with ds t have "?R s" by blast
      with Cons.IH show ?thesis by simp
    qed
  qed
qed

subsection \<open>The listing\<close>

lemma set_collect_ids:
  "set (collect_ids els ids) =
   set ids \<union> {m. \<exists>el \<in> set els. \<exists>href.
                 attr_of (js ''href'') el = Some href \<and> match_book href = Some m}"
proof (induction els arbitrary: ids)
  case Nil
  then show ?case by simp
next
  case (Cons el els)
  show ?case
  proof (cases "attr_of (js ''href'') el")
    case None
    then show ?thesis by (auto simp: Cons.IH)
  next
    case (Some href)
    then show ?thesis
      by (cases "match_book href") (auto simp: Cons.IH Set_add_def)
  qed
qed

lemma distinct_collect_ids: "distinct ids \<Longrightarrow> distinct (collect_ids els ids)"
proof (induction els arbitrary: ids)
  case Nil
  then show ?case by simp
next
  case (Cons el els)
  then show ?case
    by (auto simp: Set_add_def split: option.splits)
qed

lemma getBookIds_ok:
  "safeGet E (listing_url page) RETRY_TIMES RETRY_SLEEP_MS w = (Inr p, w1) \<Longrightarrow>
   load E p = Inr doc \<Longrightarrow>
   getBookIds E page w = (Inr (sort (collect_ids (select book_link doc) [])), w1)"
  by (simp add: getBookIds_def await_def sync_def resolve_def)

lemma match_book_at_Some:
  assumes "match_book_at s = Some m"
  shows "digits m \<and> (\<exists>b. s = js ''/book/'' @ m @ js ''/'' @ b)"
proof -
  let ?r = "drop 6 s"
  from assms have sw: "startsWith (js ''/book/'') s"
    and ne: "takeWhile is_digit ?r \<noteq> []"
    and sl: "startsWith (js ''/'') (dropWhile is_digit ?r)"
    and m: "m = takeWhile is_digit ?r"
    by (auto simp: match_book_at_def Let_def split: if_splits)
  have len: "length (js ''/book/'') = 6" by simp
  from sw have "take (length (js ''/book/'')) s = js ''/book/''"
    unfolding startsWith_def .
  then have "take 6 s = js ''/book/''" by (simp only: len)
  then have "s = js ''/book/'' @ ?r" by (metis append_take_drop_id)
  moreover have "?r = m @ dropWhile is_digit ?r" using m by simp
  moreover obtain b where "dropWhile is_digit ?r = js ''/'' @ b"
    using sl by (auto simp: startsWith_iff)
  ultimately have "s = js ''/book/'' @ m @ js ''/'' @ b" by metis
  moreover have "digits m"
    using ne m by (auto simp: digits_def dest: set_takeWhileD)
  ultimately show ?thesis by blast
qed

lemma match_book_Some:
  "match_book s = Some m \<Longrightarrow> digits m \<and> (\<exists>a b. s = a @ js ''/book/'' @ m @ js ''/'' @ b)"
proof (induction s)
  case Nil
  then show ?case
    by (simp add: match_book_at_def startsWith_def js_def)
next
  case (Cons c s)
  show ?case
  proof (cases "match_book_at (c # s)")
    case None
    with Cons.prems have "match_book s = Some m" by simp
    from Cons.IH [OF this] obtain a b where "digits m" "s = a @ js ''/book/'' @ m @ js ''/'' @ b"
      by blast
    then have "digits m \<and> c # s = (c # a) @ js ''/book/'' @ m @ js ''/'' @ b" by simp
    then show ?thesis by blast
  next
    case (Some m')
    with Cons.prems have "m' = m" by simp
    with Some match_book_at_Some [of "c # s" m]
    obtain b where "digits m" "c # s = [] @ js ''/book/'' @ m @ js ''/'' @ b"
      by auto
    then show ?thesis by blast
  qed
qed

lemma fifty_before_six: "js ''50'' < js ''6''"
  by (simp add: js_def)

lemma getBookIds_sorted_distinct:
  assumes "getBookIds E page w = (Inr ids, w1)"
  shows "sorted ids \<and> distinct ids"
proof -
  from assms obtain doc where "ids = sort (collect_ids (select book_link doc) [])"
    by (auto simp: getBookIds_def await_def sync_def resolve_def split: prod.splits sum.splits)
  then show ?thesis
    by (simp add: distinct_collect_ids)
qed

lemma is_placeholder_iff:
  "is_placeholder c \<longleftrightarrow>
     c = [] \<or>
     (\<exists>a ds t. c = a @ js ''https://media'' @ ds @ t \<and> digits ds \<and>
        t \<in> {js ''.tadu.com'', js ''.tadu.com/'', js ''.tadu.com//''}) \<or>
     (\<exists>a t. c = a @ js ''coverbg.jpg'' @ t)"
  by (simp only: is_placeholder_def media_host_test_iff includes_str_iff)

lemma crawlBookInfo_cover:
  "safeGet E (book_url b) RETRY_TIMES RETRY_SLEEP_MS w = (Inr p, w1) \<Longrightarrow> load E p = Inr doc \<Longrightarrow>
   \<exists>info. crawlBookInfo E b w = (Inr info, w1) \<and> cover_image info = cover_image_of doc"
  by (simp add: crawlBookInfo_ok extract_info_def)

lemma attr_first [simp]: "attr name (first els) = attr name els"
  by (cases els) simp_all

lemma first_Nil_iff [simp]: "first els = [] \<longleftrightarrow> els = []"
  by (cases els) simp_all

lemma pick_img_url_lazy:
  "select img_data_src doc = el # els \<Longrightarrow> attr_of (js ''data-src'') el = Some v \<Longrightarrow> v \<noteq> [] \<Longrightarrow>
   pick_img_url doc = v"
  by (simp add: pick_img_url_def lazy_src_def Let_def)

lemma pick_img_url_direct:
  "select img_data_src doc = [] \<or>
   (\<exists>el els. select img_data_src doc = el # els \<and> attr_of (js ''data-src'') el = Some []) \<Longrightarrow>
   pick_img_url doc =
     (case select (has_tag (js ''img'')) doc of [] \<Rightarrow> [] | el # els \<Rightarrow> or_empty (attr_of (js ''src'') el))"
  by (auto simp: pick_img_url_def lazy_src_def direct_src_def Let_def split: list.splits)

lemma select_has_attr:
  "select img_data_src doc = el # els \<Longrightarrow> \<exists>v. attr_of (js ''data-src'') el = Some v"
proof -
  assume "select img_data_src doc = el # els"
  then have "el \<in> set (filter img_data_src (all_elements doc))"
    by (simp add: select_def)
  then have "img_data_src el" by simp
  then show ?thesis
    by (auto simp: img_data_src_def has_attr_def)
qed

lemma normalize_url_cases:
  "startsWith (js ''//'') v \<Longrightarrow> normalize_url v = js ''https:'' @ v"
  "\<not> startsWith (js ''//'') v \<Longrightarrow> startsWith (js ''/'') v \<Longrightarrow>
     normalize_url v = js ''https://www.tadu.com'' @ v"
  "\<not> startsWith (js ''/'') v \<Longrightarrow> normalize_url v = v"
  by (auto simp: normalize_url_def startsWith_def js_def take_Suc_conv_app_nth
      split: if_splits) (cases v; simp)+

lemma link_ids_digits: "m \<in> link_ids doc \<Longrightarrow> digits m"
  by (auto simp: link_ids_def dest: match_book_Some)

lemma getBookIds_ids:
  assumes "safeGet E (listing_url page) RETRY_TIMES RETRY_SLEEP_MS w = (Inr p, w1)"
    and "load E p = Inr doc"
  shows "\<exists>ids. getBookIds E page w = (Inr ids, w1) \<and> set ids = link_ids doc \<and>
           distinct ids \<and> sorted ids"
proof -
  let ?ids = "sort (collect_ids (select book_link doc) [])"
  have "getBookIds E page w = (Inr ?ids, w1)"
    using assms by (rule getBookIds_ok)
  moreover have "set ?ids = link_ids doc"
    by (simp add: set_collect_ids link_ids_def)
  moreover have "distinct ?ids" "sorted ?ids"
    by (simp_all add: distinct_collect_ids)
  ultimately show ?thesis by blast
qed

lemma crawlChapterTitle_ok:
  "safeGet E (chapter_url b i) RETRY_TIMES RETRY_SLEEP_MS w = (Inr p, w1) \<Longrightarrow>
   load E p = Inr doc \<Longrightarrow>
   crawlChapterTitle E b i w = (Inr (pick_title doc i), w1)"
  unfolding crawlChapterTitle_def
  by (rule crawlChapterTitle_from_ok) (simp_all add: RETRY_TIMES_def)




subsection \<open>The test site\<close>

lemma dead_offline: "dead offline u"
  by (simp add: dead_def offline_def site_def)

lemma listing_url_1: "listing_url (Finite 1) = js ''https://www.tadu.com/store/98-a-0-15-a-20-p-1-909''"
  by (simp add: listing_url_def BASE_STORE_URL_def js_def startsWith_def decimal.simps)

lemma book_url_6: "book_url (js ''6'') = js ''https://www.tadu.com/book/6/''"
  by (simp add: book_url_def js_def)

lemma book_url_50: "book_url (js ''50'') = js ''https://www.tadu.com/book/50/''"
  by (simp add: book_url_def js_def)

lemma chapter_url_6_2: "chapter_url (js ''6'') 2 = js ''https://www.tadu.com/book/6/2/?isfirstpart=true''"
  by (simp add: chapter_url_def js_def decimal.simps)

lemma content_url_6_2: "content_url (js ''6'') 2 = js ''https://www.tadu.com/getPartContentByCodeTable/6/2''"
  by (simp add: content_url_def js_def decimal.simps)

lemma listing_ids: "sort (collect_ids (select book_link listing_page) []) = [js ''50'', js ''6'']"
  by (simp add: listing_page_def select_def all_elements_def book_link_def has_class_def
      has_attr_def Set_add_def match_book_at_def startsWith_def is_js_space_def is_digit_def js_def)

lemma url_kinds:
  "includes_str (js ''/store/'') (listing_url (Finite 1))"
  "\<not> includes_str (js ''/getPart'') (listing_url (Finite 1))"
  "\<not> includes_str (js ''isfirstpart'') (listing_url (Finite 1))"
  "\<not> includes_str (js ''/store/'') (book_url (js ''6''))"
  "\<not> includes_str (js ''/getPart'') (book_url (js ''6''))"
  "\<not> includes_str (js ''isfirstpart'') (book_url (js ''6''))"
  "\<not> includes_str (js ''/store/'') (book_url (js ''50''))"
  "\<not> includes_str (js ''/getPart'') (book_url (js ''50''))"
  "\<not> includes_str (js ''isfirstpart'') (book_url (js ''50''))"
  "\<not> includes_str (js ''/store/'') (chapter_url (js ''6'') 2)"
  "\<not> includes_str (js ''/getPart'') (chapter_url (js ''6'') 2)"
  "includes_str (js ''isfirstpart'') (chapter_url (js ''6'') 2)"
  "\<not> includes_str (js ''/store/'') (content_url (js ''6'') 2)"
  "includes_str (js ''/getPart'') (content_url (js ''6'') 2)"
  "listing_url (Finite 1) \<noteq> book_url (js ''6'')"
  "book_url (js ''50'') \<noteq> book_url (js ''6'')"
  unfolding listing_url_1 book_url_6 book_url_50 chapter_url_6_2 content_url_6_2
  by (simp_all add: js_def startsWith_def)

lemma site_net_listing:
  "\<not> down (listing_url (Finite 1)) \<Longrightarrow>
   net (site down) w (listing_url (Finite 1)) = Inr (Str (js ''listing''))"
  by (simp add: site_def url_kinds)

lemma parser_pages:
  "parser (Str (js ''listing'')) = Inr listing_page"
  "parser (Str (js ''book'')) = Inr book_page"
  "parser (Str (js ''chapter'')) = Inr chapter_page"
  "parser (Str (js ''part'')) = Inr part_page"
  by (simp_all add: parser_def js_def)

lemma site_load: "load (site down) = parser"
  by (simp add: site_def)

lemma site_listing:
  assumes "\<not> down (listing_url (Finite 1))"
  shows "getBookIds (site down) (Finite 1) w =
         (Inr [js ''50'', js ''6''], w @ [Request (listing_url (Finite 1))])"
proof -
  have "load (site down) (Str (js ''listing'')) = Inr listing_page"
    by (simp add: site_load parser_pages)
  moreover have "net (site down) w (listing_url (Finite 1)) = Inr (Str (js ''listing''))"
    using assms by (rule site_net_listing)
  ultimately show ?thesis
    by (simp add: getBookIds_ok [OF safeGet_ok] listing_ids)
qed

lemma site_net_book:
  "b = js ''6'' \<or> b = js ''50'' \<Longrightarrow> \<not> down (book_url b) \<Longrightarrow>
   net (site down) w (book_url b) = Inr (Str (js ''book''))"
  by (auto simp: site_def url_kinds)

lemma site_book:
  assumes "b = js ''6'' \<or> b = js ''50''" and "\<not> down (book_url b)"
  shows "crawlBookInfo (site down) b w =
         (Inr (extract_info b book_page), w @ [Request (book_url b)])"
proof -
  have "load (site down) (Str (js ''book'')) = Inr book_page"
    by (simp add: site_load parser_pages)
  moreover have "net (site down) w (book_url b) = Inr (Str (js ''book''))"
    using assms by (rule site_net_book)
  ultimately show ?thesis
    by (simp add: crawlBookInfo_ok [OF safeGet_ok])
qed

lemma site_parseInt:
  "parseInt (site down) (js ''1'') = Finite 1"
  "parseInt (site down) (js ''5'') = Finite 5"
  "parseInt (site down) (js ''2'') = Finite 2"
  "parseInt (site down) (js ''0'') = Finite 0"
  "parseInt (site down) (js ''x'') = NaN"
  by (simp_all add: site_def js_def)

lemma chapter_task_dead:
  "dead E (chapter_url b i) \<Longrightarrow> dead E (content_url b i) \<Longrightarrow>
   fst (chapter_task E b i w) = Inr \<lparr> index = i, chapter_title = default_title i, content = [] \<rparr>"
  by (simp add: chapter_task_def await_def crawlChapterTitle_dead crawlChapterContent_dead
      resolve_def)

lemma dead_book_six: "dead book_six_down (book_url (js ''6''))"
  by (simp add: dead_def book_six_down_def site_def)

lemma dead_chapters:
  "dead chapters_down (chapter_url (js ''6'') 2)" "dead chapters_down (content_url (js ''6'') 2)"
  by (simp_all add: dead_def chapters_down_def site_def url_kinds)

lemma book_six_down_listing:
  "getBookIds book_six_down (Finite 1) [] =
   (Inr [js ''50'', js ''6''], [Request (listing_url (Finite 1))])"
  unfolding book_six_down_def
  by (subst site_listing) (simp_all add: url_kinds)

lemma chapters_down_listing:
  "getBookIds chapters_down (Finite 1) [] =
   (Inr [js ''50'', js ''6''], [Request (listing_url (Finite 1))])"
  unfolding chapters_down_def
  by (subst site_listing) (simp_all add: url_kinds)

lemma chapters_down_books:
  "b = js ''6'' \<or> b = js ''50'' \<Longrightarrow> \<not> isl (fst (crawlBookInfo chapters_down b w))"
  unfolding chapters_down_def
  by (subst site_book) (auto simp: url_kinds)

lemma online_listing:
  "getBookIds online (Finite 1) [] =
   (Inr [js ''50'', js ''6''], [Request (listing_url (Finite 1))])"
  unfolding online_def by (subst site_listing) simp_all

lemma online_books:
  "b = js ''6'' \<or> b = js ''50'' \<Longrightarrow> \<not> isl (fst (crawlBookInfo online b w))"
  unfolding online_def by (subst site_book) auto

lemma online_parseInt:
  "parseInt online (js ''1'') = Finite 1"
  "parseInt online (js ''5'') = Finite 5"
  "parseInt online (js ''2'') = Finite 2"
  "parseInt online (js ''0'') = Finite 0"
  "parseInt online (js ''x'') = NaN"
  by (simp_all add: online_def site_parseInt)

lemma empty_shop_listing:
  "getBookIds empty_shop (Finite 1) [] = (Inr [], [Request (listing_url (Finite 1))])"
proof -
  have "net empty_shop [] (listing_url (Finite 1)) = Inr (Str (js ''listing''))"
    by (simp add: empty_shop_def online_def site_def url_kinds)
  moreover have "load empty_shop (Str (js ''listing'')) = Inr []"
    by (simp add: empty_shop_def)
  ultimately show ?thesis
    by (simp add: getBookIds_ok [OF safeGet_ok] select_def all_elements_def)
qed

lemma empty_shop_parseInt: "parseInt empty_shop (js ''1'') = Finite 1"
  by (simp add: empty_shop_def online_parseInt)

lemma placeholder_page_facts:
  "normalize_url (pick_img_url placeholder_page) = js ''https://media3.tadu.com/''"
  "og_image placeholder_page = Some (js ''https://img.tadu.com/og.jpg'')"
  by (simp_all add: placeholder_page_def normalize_url_def pick_img_url_def lazy_src_def
      direct_src_def og_image_def select_def all_elements_def img_data_src_def has_attr_def
      attr_is_def startsWith_def js_def)

lemma bare_host_page_facts:
  "normalize_url (pick_img_url bare_host_page) = js ''https://media3.tadu.com/''"
  "og_image bare_host_page = None"
  by (simp_all add: bare_host_page_def normalize_url_def pick_img_url_def lazy_src_def
      direct_src_def og_image_def select_def all_elements_def img_data_src_def has_attr_def
      attr_is_def startsWith_def js_def)

lemma media3_placeholder: "is_placeholder (js ''https://media3.tadu.com/'')"
proof -
  have "js ''https://media3.tadu.com/'' = [] @ js ''https://media'' @ js ''3'' @ js ''.tadu.com/''"
    by (simp add: js_def)
  moreover have "digits (js ''3'')"
    by (simp add: digits_def is_digit_def js_def)
  ultimately show ?thesis
    unfolding is_placeholder_iff by blast
qed

lemma og_nonempty: "js ''https://img.tadu.com/og.jpg'' \<noteq> []"
  by (simp add: js_def)

lemma media3_nonempty: "js ''https://media3.tadu.com/'' \<noteq> []"
  by (simp add: js_def)

lemma online_net_book_7: "net online w (book_url (js ''7'')) = Inr (Str (js ''book''))"
  by (simp add: online_def site_def book_url_def) (simp add: js_def startsWith_def)

lemma placeholder_site_fetch:
  "safeGet placeholder_site (book_url (js ''7'')) RETRY_TIMES RETRY_SLEEP_MS [] =
     (Inr (Str (js ''book'')), [Request (book_url (js ''7''))])"
  "load placeholder_site (Str (js ''book'')) = Inr placeholder_page"
  by (simp_all add: placeholder_site_def safeGet_ok online_net_book_7)

lemma bare_host_site_fetch:
  "safeGet bare_host_site (book_url (js ''7'')) RETRY_TIMES RETRY_SLEEP_MS [] =
     (Inr (Str (js ''book'')), [Request (book_url (js ''7''))])"
  "load bare_host_site (Str (js ''book'')) = Inr bare_host_page"
  by (simp_all add: bare_host_site_def safeGet_ok online_net_book_7)

lemma book_page_facts:
  "select img_data_src book_page =
     [Element (js ''img'') [(js ''data-src'', js ''//media3.tadu.com/lazy.jpg''),
                            (js ''src'', js ''/other.jpg'')] []]"
  "select (has_tag (js ''img'')) book_page =
     [Element (js ''img'') [(js ''src'', js ''/direct.jpg'')] [],
      Element (js ''img'') [(js ''data-src'', js ''//media3.tadu.com/lazy.jpg''),
                            (js ''src'', js ''/other.jpg'')] []]"
  "og_image book_page = Some (js ''https://img.tadu.com/og.jpg'')"
  by (simp_all add: book_page_def select_def all_elements_def img_data_src_def has_attr_def
      og_image_def attr_is_def js_def)

lemma lazy_facts:
  "js ''//media3.tadu.com/lazy.jpg'' \<noteq> []"
  "startsWith (js ''//'') (js ''//media3.tadu.com/lazy.jpg'')"
  "js ''https:'' @ js ''//media3.tadu.com/lazy.jpg'' = js ''https://media3.tadu.com/lazy.jpg''"
  "\<not> is_placeholder (js ''https://media3.tadu.com/lazy.jpg'')"
  by (simp_all add: js_def startsWith_def is_placeholder_def media_host_at_def is_digit_def)

lemma empty_lazy_page_facts:
  "select img_data_src empty_lazy_page =
     [Element (js ''img'') [(js ''data-src'', []), (js ''src'', js ''/a.jpg'')] []]"
  "select (has_tag (js ''img'')) empty_lazy_page =
     [Element (js ''img'') [(js ''data-src'', []), (js ''src'', js ''/a.jpg'')] []]"
  "og_image empty_lazy_page = None"
  by (simp_all add: empty_lazy_page_def select_def all_elements_def img_data_src_def has_attr_def
      og_image_def attr_is_def js_def)

lemma a_jpg_facts:
  "js ''/a.jpg'' \<noteq> []"
  "\<not> startsWith (js ''//'') (js ''/a.jpg'')"
  "startsWith (js ''/'') (js ''/a.jpg'')"
  "js ''https://www.tadu.com'' @ js ''/a.jpg'' = js ''https://www.tadu.com/a.jpg''"
  "\<not> is_placeholder (js ''https://www.tadu.com/a.jpg'')"
  "js ''data-src'' \<noteq> js ''src''"
  "js ''src'' \<noteq> js ''data-src''"
  by (simp_all add: js_def startsWith_def is_placeholder_def media_host_at_def is_digit_def)

lemma online_fetch_book_6:
  "safeGet online (book_url (js ''6'')) RETRY_TIMES RETRY_SLEEP_MS [] =
     (Inr (Str (js ''book'')), [Request (book_url (js ''6''))])"
  "load online (Str (js ''book'')) = Inr book_page"
  by (simp_all add: online_def safeGet_ok site_net_book site_load parser_pages)

lemma empty_lazy_site_fetch:
  "safeGet empty_lazy_site (book_url (js ''7'')) RETRY_TIMES RETRY_SLEEP_MS [] =
     (Inr (Str (js ''book'')), [Request (book_url (js ''7''))])"
  "load empty_lazy_site (Str (js ''book'')) = Inr empty_lazy_page"
  by (simp_all add: empty_lazy_site_def safeGet_ok online_net_book_7)

lemma online_fetch_listing:
  "safeGet online (listing_url (Finite 1)) RETRY_TIMES RETRY_SLEEP_MS [] =
     (Inr (Str (js ''listing'')), [Request (listing_url (Finite 1))])"
  "load online (Str (js ''listing'')) = Inr listing_page"
  by (simp_all add: online_def safeGet_ok site_net_listing site_load parser_pages)

lemma empty_shop_fetch_listing:
  "safeGet empty_shop (listing_url (Finite 1)) RETRY_TIMES RETRY_SLEEP_MS [] =
     (Inr (Str (js ''listing'')), [Request (listing_url (Finite 1))])"
  "load empty_shop (Str (js ''listing'')) = Inr []"
  by (simp_all add: empty_shop_def online_def safeGet_ok site_net_listing)

lemma link_ids_Nil: "link_ids [] = {}"
  by (simp add: link_ids_def select_def all_elements_def)

lemma online_fetch_chapter:
  "safeGet online (chapter_url (js ''6'') 2) RETRY_TIMES RETRY_SLEEP_MS [] =
     (Inr (Str (js ''chapter'')), [Request (chapter_url (js ''6'') 2)])"
  "load online (Str (js ''chapter'')) = Inr chapter_page"
  by (simp_all add: online_def safeGet_ok site_def url_kinds parser_pages)

lemma empty_shop_fetch_chapter:
  "safeGet empty_shop (chapter_url (js ''6'') 2) RETRY_TIMES RETRY_SLEEP_MS [] =
     (Inr (Str (js ''chapter'')), [Request (chapter_url (js ''6'') 2)])"
  "load empty_shop (Str (js ''chapter'')) = Inr []"
  by (simp_all add: empty_shop_def online_def safeGet_ok site_def url_kinds)

lemma chapter_page_h4s:
  "select (has_tag (js ''h4'')) chapter_page =
     [Element (js ''h4'') [] [TextNode (js ''Book'')],
      Element (js ''h4'') [] [TextNode (js '' Chapter One '')]]"
  by (simp add: chapter_page_def select_def all_elements_def)

lemma trim_chapter_one: "trim (js '' Chapter One '') = js ''Chapter One''"
  by (simp add: trim_def is_js_space_def js_def)




lemma empty_shop_fetch_book:
  "safeGet empty_shop (book_url (js ''7'')) RETRY_TIMES RETRY_SLEEP_MS [] =
     (Inr (Str (js ''book'')), [Request (book_url (js ''7''))])"
  "load empty_shop (Str (js ''book'')) = Inr []"
  by (simp_all add: empty_shop_def safeGet_ok online_net_book_7)

lemma empty_page_facts:
  "[] = normalize_url (pick_img_url [])"
  "og_image [] = None"
  by (simp_all add: normalize_url_def pick_img_url_def lazy_src_def direct_src_def og_image_def
      select_def all_elements_def startsWith_def js_def)

lemma site_max_length: "max_length (site down) = 2 ^ 27 - 1"
  by (simp add: max_length_def site_def)

lemma test_max_length:
  "max_length online = 2 ^ 27 - 1"
  "max_length chapters_down = 2 ^ 27 - 1"
  by (simp_all add: online_def chapters_down_def site_max_length)

section \<open>The claims\<close>

subsection \<open>C1: how often a dead target is requested\<close>

text \<open>
  Claim C1. With 3 retry attempts and a target that always fails, \<^verbatim>\<open>safeGet\<close> sends the
  request exactly 3 times, with a pause of 200 ms between attempts, and then fails; so do
  \<^verbatim>\<open>getBookIds\<close> and \<^verbatim>\<open>crawlBookInfo\<close>, which call it once. \<^verbatim>\<open>crawlChapterTitle\<close> and
  \<^verbatim>\<open>crawlChapterContent\<close> have a retry loop of their own around \<^verbatim>\<open>safeGet\<close>: they call it
  3 times, so the request is sent exactly 9 times before the default value is returned.
\<close>

theorem C1_retry_exhaustion:
  "(dead E u \<longrightarrow>
      safeGet E u RETRY_TIMES RETRY_SLEEP_MS w =
        (Inl (Error (unreachable_message u 3)),
         w @ [Request u, Sleep 200, Request u, Sleep 200, Request u])) \<and>
   (dead E (listing_url page) \<longrightarrow>
      (\<exists>e w'. getBookIds E page w = (Inl e, w') \<and>
         requests_to (listing_url page) w' = requests_to (listing_url page) w + 3)) \<and>
   (dead E (book_url b) \<longrightarrow>
      (\<exists>e w'. crawlBookInfo E b w = (Inl e, w') \<and>
         requests_to (book_url b) w' = requests_to (book_url b) w + 3)) \<and>
   (dead E (chapter_url b i) \<longrightarrow>
      (\<exists>w'. crawlChapterTitle E b i w = (Inr (default_title i), w') \<and>
         requests_to (chapter_url b i) w' = requests_to (chapter_url b i) w + 9)) \<and>
   (dead E (content_url b i) \<longrightarrow>
      (\<exists>w'. crawlChapterContent E b i w = (Inr [], w') \<and>
         requests_to (content_url b i) w' = requests_to (content_url b i) w + 9))"
proof (intro conjI impI)
  assume "dead E u"
  then show "safeGet E u RETRY_TIMES RETRY_SLEEP_MS w =
        (Inl (Error (unreachable_message u 3)),
         w @ [Request u, Sleep 200, Request u, Sleep 200, Request u])"
    by (simp add: safeGet_dead RETRY_TIMES_def RETRY_SLEEP_MS_def numeral_3_eq_3)
next
  assume "dead E (listing_url page)"
  then show "\<exists>e w'. getBookIds E page w = (Inl e, w') \<and>
         requests_to (listing_url page) w' = requests_to (listing_url page) w + 3"
    by (simp add: getBookIds_dead) (simp add: RETRY_TIMES_def)
next
  assume "dead E (book_url b)"
  then show "\<exists>e w'. crawlBookInfo E b w = (Inl e, w') \<and>
         requests_to (book_url b) w' = requests_to (book_url b) w + 3"
    by (simp add: crawlBookInfo_dead) (simp add: RETRY_TIMES_def)
next
  assume "dead E (chapter_url b i)"
  then show "\<exists>w'. crawlChapterTitle E b i w = (Inr (default_title i), w') \<and>
         requests_to (chapter_url b i) w' = requests_to (chapter_url b i) w + 9"
    by (simp add: crawlChapterTitle_dead) (simp add: RETRY_TIMES_def)
next
  assume "dead E (content_url b i)"
  then show "\<exists>w'. crawlChapterContent E b i w = (Inr [], w') \<and>
         requests_to (content_url b i) w' = requests_to (content_url b i) w + 9"
    by (simp add: crawlChapterContent_dead) (simp add: RETRY_TIMES_def)
qed

text \<open>The site with every URL unreachable.\<close>

theorem C1_retry_exhaustion_witness:
  "dead offline (book_url (js ''7'')) \<and> dead offline (listing_url (Finite 1)) \<and>
   dead offline (chapter_url (js ''7'') 1) \<and> dead offline (content_url (js ''7'') 1) \<and>
   safeGet offline (book_url (js ''7'')) RETRY_TIMES RETRY_SLEEP_MS [] =
     (Inl (Error (unreachable_message (book_url (js ''7'')) 3)),
      [Request (book_url (js ''7'')), Sleep 200, Request (book_url (js ''7'')), Sleep 200,
       Request (book_url (js ''7''))]) \<and>
   (\<exists>e w'. getBookIds offline (Finite 1) [] = (Inl e, w') \<and>
      requests_to (listing_url (Finite 1)) w' = 3) \<and>
   (\<exists>e w'. crawlBookInfo offline (js ''7'') [] = (Inl e, w') \<and>
      requests_to (book_url (js ''7'')) w' = 3) \<and>
   (\<exists>w'. crawlChapterTitle offline (js ''7'') 1 [] = (Inr (default_title 1), w') \<and>
      requests_to (chapter_url (js ''7'') 1) w' = 9) \<and>
   (\<exists>w'. crawlChapterContent offline (js ''7'') 1 [] = (Inr [], w') \<and>
      requests_to (content_url (js ''7'') 1) w' = 9)"
  using C1_retry_exhaustion [of offline "book_url (js ''7'')" "[]" "Finite 1" "js ''7''" 1]
  by (simp add: dead_offline)

text \<open>
  The claim as it was made, 3 requests on the chapter path as well, fails there: the title
  of chapter 1 of book 7 takes 9 requests.
\<close>

theorem C1_counterexample:
  "fst (crawlChapterTitle offline (js ''7'') 1 []) = Inr (default_title 1) \<and>
   requests_to (chapter_url (js ''7'') 1) (snd (crawlChapterTitle offline (js ''7'') 1 [])) = 9 \<and>
   requests_to (chapter_url (js ''7'') 1) (snd (crawlChapterTitle offline (js ''7'') 1 [])) \<noteq> 3"
  by (simp add: crawlChapterTitle_dead [OF dead_offline]) (simp add: RETRY_TIMES_def)

subsection \<open>C2: which failures reach the caller\<close>

text \<open>
  Claim C2. Failure handling is asymmetric. When the listing fetch exhausts its retries, or
  the metadata fetch of any book of the listing does, the error propagates and the request
  is answered with status 500. The chapter functions never throw: when the title fetch is
  exhausted the title is the default title of the index, when the content fetch is exhausted
  the content is the empty string, and the request succeeds with status 200 whenever the
  listing and the metadata of every book are fetched, whatever happens to the chapter
  fetches, provided the number of chapters asked for is no more than the largest array that
  the platform builds.
\<close>

theorem C2_failure_asymmetry:
  "(dead E (listing_url (parseInt E (or_default qp (js ''1'')))) \<longrightarrow>
      status (fst (crawl E qp qn w)) = 500) \<and>
   (getBookIds E (parseInt E (or_default qp (js ''1''))) w = (Inr ids, w1) \<and> b \<in> set ids \<and>
    dead E (book_url b) \<longrightarrow>
      status (fst (crawl E qp qn w)) = 500) \<and>
   (\<exists>t w'. crawlChapterTitle E b i w = (Inr t, w')) \<and>
   (\<exists>c w'. crawlChapterContent E b i w = (Inr c, w')) \<and>
   (dead E (chapter_url b i) \<longrightarrow> fst (crawlChapterTitle E b i w) = Inr (default_title i)) \<and>
   (dead E (content_url b i) \<longrightarrow> fst (crawlChapterContent E b i w) = Inr []) \<and>
   (dead E (chapter_url b i) \<and> dead E (content_url b i) \<longrightarrow>
      fst (chapter_task E b i w) =
        Inr \<lparr> index = i, chapter_title = default_title i, content = [] \<rparr>) \<and>
   (getBookIds E (parseInt E (or_default qp (js ''1''))) w = (Inr ids, w1) \<and> ids \<noteq> [] \<and>
    (\<forall>b \<in> set ids. \<forall>w0. \<not> isl (fst (crawlBookInfo E b w0))) \<and>
    ToLength (parseInt E (or_default qn (js ''5''))) \<le> max_length E \<longrightarrow>
      status (fst (crawl E qp qn w)) = 200)"
proof (intro conjI impI)
  assume "dead E (listing_url (parseInt E (or_default qp (js ''1''))))"
  then show "status (fst (crawl E qp qn w)) = 500"
    by (simp add: crawl_listing_failed [OF getBookIds_dead])
next
  assume "getBookIds E (parseInt E (or_default qp (js ''1''))) w = (Inr ids, w1) \<and>
    b \<in> set ids \<and> dead E (book_url b)"
  then show "status (fst (crawl E qp qn w)) = 500"
    using crawl_book_dead by blast
next
  show "\<exists>t w'. crawlChapterTitle E b i w = (Inr t, w')"
    by (rule crawlChapterTitle_total)
next
  show "\<exists>c w'. crawlChapterContent E b i w = (Inr c, w')"
    by (rule crawlChapterContent_total)
next
  assume "dead E (chapter_url b i)"
  then show "fst (crawlChapterTitle E b i w) = Inr (default_title i)"
    by (simp add: crawlChapterTitle_dead)
next
  assume "dead E (content_url b i)"
  then show "fst (crawlChapterContent E b i w) = Inr []"
    by (simp add: crawlChapterContent_dead)
next
  assume "dead E (chapter_url b i) \<and> dead E (content_url b i)"
  then show "fst (chapter_task E b i w) =
        Inr \<lparr> index = i, chapter_title = default_title i, content = [] \<rparr>"
    by (simp add: chapter_task_dead)
next
  assume "getBookIds E (parseInt E (or_default qp (js ''1''))) w = (Inr ids, w1) \<and> ids \<noteq> [] \<and>
    (\<forall>b \<in> set ids. \<forall>w0. \<not> isl (fst (crawlBookInfo E b w0))) \<and>
    ToLength (parseInt E (or_default qn (js ''5''))) \<le> max_length E"
  then obtain rs w' where "crawl E qp qn w = (Response 200 (Results rs), w')"
    using crawl_succeeds by blast
  then show "status (fst (crawl E qp qn w)) = 200" by simp
qed

text \<open>
  Three sites: one with every URL unreachable, one where only the page of book 6 is
  unreachable, and one where exactly the chapter pages and chapter contents are.
\<close>

theorem C2_failure_asymmetry_witness:
  "dead offline (listing_url (Finite 1)) \<and>
   status (fst (crawl offline None None [])) = 500 \<and>
   getBookIds book_six_down (Finite 1) [] =
     (Inr [js ''50'', js ''6''], [Request (listing_url (Finite 1))]) \<and>
   dead book_six_down (book_url (js ''6'')) \<and>
   status (fst (crawl book_six_down None None [])) = 500 \<and>
   getBookIds chapters_down (Finite 1) [] =
     (Inr [js ''50'', js ''6''], [Request (listing_url (Finite 1))]) \<and>
   (\<forall>w0. \<not> isl (fst (crawlBookInfo chapters_down (js ''50'') w0))) \<and>
   (\<forall>w0. \<not> isl (fst (crawlBookInfo chapters_down (js ''6'') w0))) \<and>
   ToLength (Finite 5) \<le> max_length chapters_down \<and>
   dead chapters_down (chapter_url (js ''6'') 2) \<and>
   dead chapters_down (content_url (js ''6'') 2) \<and>
   fst (crawlChapterTitle chapters_down (js ''6'') 2 []) = Inr (default_title 2) \<and>
   fst (crawlChapterContent chapters_down (js ''6'') 2 []) = Inr [] \<and>
   fst (chapter_task chapters_down (js ''6'') 2 []) =
     Inr \<lparr> index = 2, chapter_title = default_title 2, content = [] \<rparr> \<and>
   status (fst (crawl chapters_down None None [])) = 200"
proof -
  have off: "parseInt offline (js ''1'') = Finite 1"
    and six: "parseInt book_six_down (js ''1'') = Finite 1"
    and down: "parseInt chapters_down (js ''1'') = Finite 1"
      "parseInt chapters_down (js ''5'') = Finite 5"
    by (simp_all add: offline_def book_six_down_def chapters_down_def site_parseInt)
  note a = C2_failure_asymmetry [where E = offline and qp = None and qn = None and w = "[]"]
  note b = C2_failure_asymmetry [where E = book_six_down and qp = None and qn = None
      and w = "[]" and ids = "[js ''50'', js ''6'']" and b = "js ''6''"
      and ?w1.0 = "[Request (listing_url (Finite 1))]"]
  note c = C2_failure_asymmetry [where E = chapters_down and qp = None and qn = None
      and w = "[]" and ids = "[js ''50'', js ''6'']" and b = "js ''6''" and i = 2
      and ?w1.0 = "[Request (listing_url (Finite 1))]"]
  have five: "ToLength (Finite 5) \<le> max_length chapters_down"
    by (simp add: test_max_length)
  have "status (fst (crawl offline None None [])) = 500"
    using a by (simp add: off dead_offline)
  moreover have "status (fst (crawl book_six_down None None [])) = 500"
    using b by (simp add: six book_six_down_listing dead_book_six)
  moreover have "fst (crawlChapterTitle chapters_down (js ''6'') 2 []) = Inr (default_title 2)"
    "fst (crawlChapterContent chapters_down (js ''6'') 2 []) = Inr []"
    "fst (chapter_task chapters_down (js ''6'') 2 []) =
       Inr \<lparr> index = 2, chapter_title = default_title 2, content = [] \<rparr>"
    "status (fst (crawl chapters_down None None [])) = 200"
    using c five
    by (simp_all add: down chapters_down_listing chapters_down_books dead_chapters)
  ultimately show ?thesis
    using five
    by (simp add: dead_offline book_six_down_listing dead_book_six chapters_down_listing
        chapters_down_books dead_chapters)
qed

subsection \<open>C3: the fallback to the social-preview image\<close>

text \<open>
  Claim C3. Let \<open>c\<close> be the candidate after normalization. When \<open>c\<close> is empty, or ends in a
  bare media-host URL (\<^verbatim>\<open>https://media\<close>, digits, \<^verbatim>\<open>.tadu.com\<close> and at most two slashes), or
  contains \<^verbatim>\<open>coverbg.jpg\<close>, then the cover image is the content of the \<^verbatim>\<open>og:image\<close> tag if
  the page has one with a non-empty content; otherwise the candidate is kept as it is, so
  that the cover image is the empty string only when the candidate was empty.
\<close>

theorem C3_cover_fallback:
  "safeGet E (book_url b) RETRY_TIMES RETRY_SLEEP_MS w = (Inr p, w1) \<and> load E p = Inr doc \<and>
   c = normalize_url (pick_img_url doc) \<longrightarrow>
     (\<exists>info. crawlBookInfo E b w = (Inr info, w1) \<and>
        (is_placeholder c \<and> og_image doc = Some m \<and> m \<noteq> [] \<longrightarrow> cover_image info = m) \<and>
        (is_placeholder c \<and> (og_image doc = None \<or> og_image doc = Some []) \<longrightarrow>
           cover_image info = c) \<and>
        (c = [] \<and> (og_image doc = None \<or> og_image doc = Some []) \<longrightarrow> cover_image info = [])) \<and>
     (is_placeholder c \<longleftrightarrow>
        c = [] \<or>
        (\<exists>a ds t. c = a @ js ''https://media'' @ ds @ t \<and> digits ds \<and>
           t \<in> {js ''.tadu.com'', js ''.tadu.com/'', js ''.tadu.com//''}) \<or>
        (\<exists>a t. c = a @ js ''coverbg.jpg'' @ t))"
proof (intro impI conjI)
  assume h: "safeGet E (book_url b) RETRY_TIMES RETRY_SLEEP_MS w = (Inr p, w1) \<and>
    load E p = Inr doc \<and> c = normalize_url (pick_img_url doc)"
  then obtain info where info: "crawlBookInfo E b w = (Inr info, w1)"
    and cover: "cover_image info = cover_image_of doc"
    using crawlBookInfo_cover by blast
  from h have c: "c = normalize_url (pick_img_url doc)" by simp
  have "is_placeholder c \<and> og_image doc = Some m \<and> m \<noteq> [] \<longrightarrow> cover_image info = m"
    by (simp add: cover cover_image_of_def meta_fallback_def c)
  moreover have "is_placeholder c \<and> (og_image doc = None \<or> og_image doc = Some []) \<longrightarrow>
      cover_image info = c"
    by (auto simp: cover cover_image_of_def meta_fallback_def c)
  moreover have "c = [] \<and> (og_image doc = None \<or> og_image doc = Some []) \<longrightarrow>
      cover_image info = []"
    by (auto simp: cover cover_image_of_def meta_fallback_def c is_placeholder_def)
  ultimately show "\<exists>info. crawlBookInfo E b w = (Inr info, w1) \<and>
        (is_placeholder c \<and> og_image doc = Some m \<and> m \<noteq> [] \<longrightarrow> cover_image info = m) \<and>
        (is_placeholder c \<and> (og_image doc = None \<or> og_image doc = Some []) \<longrightarrow>
           cover_image info = c) \<and>
        (c = [] \<and> (og_image doc = None \<or> og_image doc = Some []) \<longrightarrow> cover_image info = [])"
    using info by blast
  show "is_placeholder c \<longleftrightarrow>
        c = [] \<or>
        (\<exists>a ds t. c = a @ js ''https://media'' @ ds @ t \<and> digits ds \<and>
           t \<in> {js ''.tadu.com'', js ''.tadu.com/'', js ''.tadu.com//''}) \<or>
        (\<exists>a t. c = a @ js ''coverbg.jpg'' @ t)"
    by (rule is_placeholder_iff)
qed

text \<open>
  A page whose only image is \<^verbatim>\<open>https://media3.tadu.com/\<close>, once with an \<^verbatim>\<open>og:image\<close> tag
  and once without; and an empty page.
\<close>

theorem C3_cover_fallback_witness:
  "safeGet placeholder_site (book_url (js ''7'')) RETRY_TIMES RETRY_SLEEP_MS [] =
     (Inr (Str (js ''book'')), [Request (book_url (js ''7''))]) \<and>
   load placeholder_site (Str (js ''book'')) = Inr placeholder_page \<and>
   js ''https://media3.tadu.com/'' = normalize_url (pick_img_url placeholder_page) \<and>
   is_placeholder (js ''https://media3.tadu.com/'') \<and>
   og_image placeholder_page = Some (js ''https://img.tadu.com/og.jpg'') \<and>
   (\<exists>info. crawlBookInfo placeholder_site (js ''7'') [] =
              (Inr info, [Request (book_url (js ''7''))]) \<and>
           cover_image info = js ''https://img.tadu.com/og.jpg'') \<and>
   safeGet bare_host_site (book_url (js ''7'')) RETRY_TIMES RETRY_SLEEP_MS [] =
     (Inr (Str (js ''book'')), [Request (book_url (js ''7''))]) \<and>
   load bare_host_site (Str (js ''book'')) = Inr bare_host_page \<and>
   js ''https://media3.tadu.com/'' = normalize_url (pick_img_url bare_host_page) \<and>
   og_image bare_host_page = None \<and>
   (\<exists>info. crawlBookInfo bare_host_site (js ''7'') [] =
              (Inr info, [Request (book_url (js ''7''))]) \<and>
           cover_image info = js ''https://media3.tadu.com/'') \<and>
   safeGet empty_shop (book_url (js ''7'')) RETRY_TIMES RETRY_SLEEP_MS [] =
     (Inr (Str (js ''book'')), [Request (book_url (js ''7''))]) \<and>
   load empty_shop (Str (js ''book'')) = Inr [] \<and>
   [] = normalize_url (pick_img_url []) \<and>
   og_image [] = None \<and>
   (\<exists>info. crawlBookInfo empty_shop (js ''7'') [] =
              (Inr info, [Request (book_url (js ''7''))]) \<and>
           cover_image info = [])"
proof -
  note c = C3_cover_fallback [where E = empty_shop and b = "js ''7''" and w = "[]"
      and p = "Str (js ''book'')" and ?w1.0 = "[Request (book_url (js ''7''))]"
      and doc = "[]" and c = "[]"]
  have "\<exists>info. crawlBookInfo empty_shop (js ''7'') [] =
              (Inr info, [Request (book_url (js ''7''))]) \<and>
           cover_image info = []"
    using c empty_shop_fetch_book empty_page_facts
    by auto
  moreover
  note a = C3_cover_fallback [where E = placeholder_site and b = "js ''7''" and w = "[]"
      and p = "Str (js ''book'')" and ?w1.0 = "[Request (book_url (js ''7''))]"
      and doc = placeholder_page and c = "js ''https://media3.tadu.com/''"
      and m = "js ''https://img.tadu.com/og.jpg''"]
  note b = C3_cover_fallback [where E = bare_host_site and b = "js ''7''" and w = "[]"
      and p = "Str (js ''book'')" and ?w1.0 = "[Request (book_url (js ''7''))]"
      and doc = bare_host_page and c = "js ''https://media3.tadu.com/''"]
  have "\<exists>info. crawlBookInfo placeholder_site (js ''7'') [] =
              (Inr info, [Request (book_url (js ''7''))]) \<and>
           cover_image info = js ''https://img.tadu.com/og.jpg''"
    using a placeholder_site_fetch placeholder_page_facts media3_placeholder og_nonempty
    by auto
  moreover have "\<exists>info. crawlBookInfo bare_host_site (js ''7'') [] =
              (Inr info, [Request (book_url (js ''7''))]) \<and>
           cover_image info = js ''https://media3.tadu.com/''"
    using b bare_host_site_fetch bare_host_page_facts media3_placeholder
    by auto
  ultimately show ?thesis
    using placeholder_site_fetch placeholder_page_facts bare_host_site_fetch
      bare_host_page_facts media3_placeholder empty_shop_fetch_book empty_page_facts
    by simp
qed

text \<open>
  The claim as it was made, the empty string when the tag is absent, fails on the page
  without the tag: the cover image is the bare media-host URL.
\<close>

theorem C3_counterexample:
  "is_placeholder (normalize_url (pick_img_url bare_host_page)) \<and>
   og_image bare_host_page = None \<and>
   map_sum message cover_image (fst (crawlBookInfo bare_host_site (js ''7'') [])) =
     Inr (js ''https://media3.tadu.com/'') \<and>
   js ''https://media3.tadu.com/'' \<noteq> []"
proof -
  have "crawlBookInfo bare_host_site (js ''7'') [] =
        (Inr (extract_info (js ''7'') bare_host_page), [Request (book_url (js ''7''))])"
    using bare_host_site_fetch by (rule crawlBookInfo_ok)
  moreover have "cover_image_of bare_host_page = js ''https://media3.tadu.com/''"
    by (simp add: cover_image_of_def meta_fallback_def bare_host_page_facts media3_placeholder)
  ultimately show ?thesis
    by (simp add: bare_host_page_facts media3_placeholder media3_nonempty extract_info_def)
qed

subsection \<open>C4: the chapters come back in index order\<close>




subsection \<open>C5: one record per listed book, in the order of the listing\<close>

text \<open>
  Claim C5. Let the listing yield the identifiers \<open>ids\<close>; they are distinct. If there are
  none, the request is answered with status 404 and nothing further is requested: no book is
  crawled. If there are some, a result array has exactly as many records as there are
  identifiers, the record at each position being that of the identifier at that position,
  whatever the order in which the book tasks complete. When the number of chapters asked for
  is no more than the largest array that the platform builds, the request is answered with
  status 200 or 500, and the array is produced whenever the metadata of every book can be
  fetched.
\<close>

theorem C5_result_order:
  "getBookIds E (parseInt E (or_default qp (js ''1''))) w = (Inr ids, w1) \<longrightarrow>
     distinct ids \<and>
     (ids = [] \<longrightarrow> crawl E qp qn w = (Response 404 (ErrorBody no_book_message), w1)) \<and>
     (ids \<noteq> [] \<longrightarrow>
        (\<forall>rs. fst (crawl E qp qn w) = Response 200 (Results rs) \<longrightarrow>
           length rs = length ids \<and> map book_id rs = ids)) \<and>
     (ids \<noteq> [] \<and> ToLength (parseInt E (or_default qn (js ''5''))) \<le> max_length E \<longrightarrow>
        status (fst (crawl E qp qn w)) \<in> {200, 500}) \<and>
     (ids \<noteq> [] \<and> (\<forall>b \<in> set ids. \<forall>w0. \<not> isl (fst (crawlBookInfo E b w0))) \<and>
      ToLength (parseInt E (or_default qn (js ''5''))) \<le> max_length E \<longrightarrow>
        (\<exists>rs w'. crawl E qp qn w = (Response 200 (Results rs), w') \<and>
           length rs = length ids \<and> map book_id rs = ids))"
proof (intro impI conjI allI)
  assume ids: "getBookIds E (parseInt E (or_default qp (js ''1''))) w = (Inr ids, w1)"
  from getBookIds_sorted_distinct [OF ids] show "distinct ids" by simp
  {
    assume "ids = []"
    with ids show "crawl E qp qn w = (Response 404 (ErrorBody no_book_message), w1)"
      by (simp add: crawl_no_books)
  }
  {
    assume "ids \<noteq> [] \<and> ToLength (parseInt E (or_default qn (js ''5''))) \<le> max_length E"
    then have ne: "ids \<noteq> []" by simp
    show "status (fst (crawl E qp qn w)) \<in> {200, 500}"
      by (auto simp: crawl_books [OF ids ne] split: prod.splits sum.splits)
  }
  {
    assume ne: "ids \<noteq> []"
    fix rs
    assume "fst (crawl E qp qn w) = Response 200 (Results rs)"
    from crawl_results [OF ids ne this] have m: "map book_id rs = ids" by simp
    then show "map book_id rs = ids" .
    from m show "length rs = length ids" by (metis length_map)
  }
  {
    assume h: "ids \<noteq> [] \<and> (\<forall>b \<in> set ids. \<forall>w0. \<not> isl (fst (crawlBookInfo E b w0))) \<and>
      ToLength (parseInt E (or_default qn (js ''5''))) \<le> max_length E"
    then obtain rs w' where run: "crawl E qp qn w = (Response 200 (Results rs), w')"
      using crawl_succeeds [OF ids] by blast
    then have "fst (crawl E qp qn w) = Response 200 (Results rs)" by simp
    from crawl_results [OF ids _ this] h have m: "map book_id rs = ids" by simp
    then have "length rs = length ids" by (metis length_map)
    with run m show "\<exists>rs w'. crawl E qp qn w = (Response 200 (Results rs), w') \<and>
           length rs = length ids \<and> map book_id rs = ids"
      by blast
  }
qed

text \<open>
  A site whose listing shows no book; and the test site, where the listing shows the books
  50 and 6 and the task of book 6 completes before that of book 50.
\<close>

theorem C5_result_order_witness:
  "getBookIds empty_shop (Finite 1) [] = (Inr [], [Request (listing_url (Finite 1))]) \<and>
   crawl empty_shop None None [] =
     (Response 404 (ErrorBody no_book_message), [Request (listing_url (Finite 1))]) \<and>
   getBookIds online (Finite 1) [] =
     (Inr [js ''50'', js ''6''], [Request (listing_url (Finite 1))]) \<and>
   (\<forall>w0. \<not> isl (fst (crawlBookInfo online (js ''50'') w0))) \<and>
   (\<forall>w0. \<not> isl (fst (crawlBookInfo online (js ''6'') w0))) \<and>
   ToLength (Finite 2) \<le> max_length online \<and>
   (\<exists>rs w'. crawl online None (Some (js ''2'')) [] = (Response 200 (Results rs), w') \<and>
      map book_id rs = [js ''50'', js ''6''])"
proof -
  note a = C5_result_order [where E = empty_shop and qp = None and qn = None and w = "[]"
      and ids = "[]" and ?w1.0 = "[Request (listing_url (Finite 1))]"]
  note b = C5_result_order [where E = online and qp = None and qn = "Some (js ''2'')"
      and w = "[]" and ids = "[js ''50'', js ''6'']"
      and ?w1.0 = "[Request (listing_url (Finite 1))]"]
  have two: "js ''2'' \<noteq> []" by (simp add: js_def)
  have "crawl empty_shop None None [] =
     (Response 404 (ErrorBody no_book_message), [Request (listing_url (Finite 1))])"
    using a by (simp add: empty_shop_parseInt empty_shop_listing)
  moreover have "\<exists>rs w'. crawl online None (Some (js ''2'')) [] = (Response 200 (Results rs), w') \<and>
      map book_id rs = [js ''50'', js ''6'']"
    using b by (auto simp: two online_parseInt online_listing online_books test_max_length)
  ultimately show ?thesis
    by (simp add: empty_shop_listing online_listing online_books test_max_length)
qed

subsection \<open>C6: which image is the candidate\<close>

text \<open>
  Claim C6. The cover image of a fetched book page is the candidate, normalized and passed
  through the fallback of C3. The candidate is the value of the lazy-load attribute
  (\<^verbatim>\<open>data-src\<close>) of the first image element that carries one, provided that value is not
  empty; if no image element carries the attribute, or that value is empty, the candidate is
  the \<^verbatim>\<open>src\<close> attribute of the first image element of the page (empty if there is none).
  Normalization puts \<^verbatim>\<open>https:\<close> before a value that starts with \<^verbatim>\<open>//\<close> and the site origin
  before any other value that starts with \<^verbatim>\<open>/\<close>, and leaves the rest alone. In particular,
  when both attributes are present and the lazy-load value is not empty, the lazy-load value
  wins.
\<close>

theorem C6_cover_precedence:
  "safeGet E (book_url b) RETRY_TIMES RETRY_SLEEP_MS w = (Inr p, w1) \<and> load E p = Inr doc \<longrightarrow>
     (\<exists>info. crawlBookInfo E b w = (Inr info, w1) \<and>
        cover_image info = meta_fallback doc (normalize_url (pick_img_url doc))) \<and>
     (\<forall>el els v. select img_data_src doc = el # els \<and> attr_of (js ''data-src'') el = Some v \<and>
        v \<noteq> [] \<longrightarrow> pick_img_url doc = v) \<and>
     (select img_data_src doc = [] \<or>
      (\<exists>el els. select img_data_src doc = el # els \<and> attr_of (js ''data-src'') el = Some []) \<longrightarrow>
        pick_img_url doc =
          (case select (has_tag (js ''img'')) doc of
             [] \<Rightarrow> []
           | el # els \<Rightarrow> or_empty (attr_of (js ''src'') el))) \<and>
     (\<forall>v. (startsWith (js ''//'') v \<longrightarrow> normalize_url v = js ''https:'' @ v) \<and>
          (\<not> startsWith (js ''//'') v \<and> startsWith (js ''/'') v \<longrightarrow>
             normalize_url v = js ''https://www.tadu.com'' @ v) \<and>
          (\<not> startsWith (js ''/'') v \<longrightarrow> normalize_url v = v)) \<and>
     (\<forall>v. \<not> is_placeholder v \<longrightarrow> meta_fallback doc v = v)"
proof (intro impI conjI allI)
  assume "safeGet E (book_url b) RETRY_TIMES RETRY_SLEEP_MS w = (Inr p, w1) \<and> load E p = Inr doc"
  then show "\<exists>info. crawlBookInfo E b w = (Inr info, w1) \<and>
        cover_image info = meta_fallback doc (normalize_url (pick_img_url doc))"
    using crawlBookInfo_cover [of E b w p w1 doc] by (simp add: cover_image_of_def)
next
  fix el els v
  assume "select img_data_src doc = el # els \<and> attr_of (js ''data-src'') el = Some v \<and> v \<noteq> []"
  then show "pick_img_url doc = v"
    using pick_img_url_lazy by blast
next
  assume "select img_data_src doc = [] \<or>
      (\<exists>el els. select img_data_src doc = el # els \<and> attr_of (js ''data-src'') el = Some [])"
  then show "pick_img_url doc =
          (case select (has_tag (js ''img'')) doc of
             [] \<Rightarrow> []
           | el # els \<Rightarrow> or_empty (attr_of (js ''src'') el))"
    by (rule pick_img_url_direct)
next
  fix v
  assume "startsWith (js ''//'') v"
  then show "normalize_url v = js ''https:'' @ v"
    by (rule normalize_url_cases)
next
  fix v
  assume "\<not> startsWith (js ''//'') v \<and> startsWith (js ''/'') v"
  then show "normalize_url v = js ''https://www.tadu.com'' @ v"
    by (simp add: normalize_url_cases)
next
  fix v
  assume "\<not> startsWith (js ''/'') v"
  then show "normalize_url v = v"
    by (rule normalize_url_cases)
next
  fix v
  assume "\<not> is_placeholder v"
  then show "meta_fallback doc v = v"
    by (simp add: meta_fallback_def)
qed

text \<open>
  The book page of the test site, whose second image carries the lazy-load attribute; and a
  page whose image has an empty lazy-load attribute.
\<close>

theorem C6_cover_precedence_witness:
  "safeGet online (book_url (js ''6'')) RETRY_TIMES RETRY_SLEEP_MS [] =
     (Inr (Str (js ''book'')), [Request (book_url (js ''6''))]) \<and>
   load online (Str (js ''book'')) = Inr book_page \<and>
   select img_data_src book_page =
     [Element (js ''img'') [(js ''data-src'', js ''//media3.tadu.com/lazy.jpg''),
                            (js ''src'', js ''/other.jpg'')] []] \<and>
   startsWith (js ''//'') (js ''//media3.tadu.com/lazy.jpg'') \<and>
   \<not> is_placeholder (js ''https://media3.tadu.com/lazy.jpg'') \<and>
   (\<exists>info. crawlBookInfo online (js ''6'') [] = (Inr info, [Request (book_url (js ''6''))]) \<and>
      cover_image info = js ''https://media3.tadu.com/lazy.jpg'') \<and>
   safeGet empty_lazy_site (book_url (js ''7'')) RETRY_TIMES RETRY_SLEEP_MS [] =
     (Inr (Str (js ''book'')), [Request (book_url (js ''7''))]) \<and>
   load empty_lazy_site (Str (js ''book'')) = Inr empty_lazy_page \<and>
   select img_data_src empty_lazy_page =
     [Element (js ''img'') [(js ''data-src'', []), (js ''src'', js ''/a.jpg'')] []] \<and>
   \<not> startsWith (js ''//'') (js ''/a.jpg'') \<and> startsWith (js ''/'') (js ''/a.jpg'') \<and>
   \<not> is_placeholder (js ''https://www.tadu.com/a.jpg'') \<and>
   (\<exists>info. crawlBookInfo empty_lazy_site (js ''7'') [] =
              (Inr info, [Request (book_url (js ''7''))]) \<and>
      cover_image info = js ''https://www.tadu.com/a.jpg'') \<and>
   \<not> startsWith (js ''/'') (js ''https://img.tadu.com/og.jpg'') \<and>
   normalize_url (js ''https://img.tadu.com/og.jpg'') = js ''https://img.tadu.com/og.jpg''"
proof -
  note a = C6_cover_precedence [where E = online and b = "js ''6''" and w = "[]"
      and p = "Str (js ''book'')" and ?w1.0 = "[Request (book_url (js ''6''))]"
      and doc = book_page]
  note b = C6_cover_precedence [where E = empty_lazy_site and b = "js ''7''" and w = "[]"
      and p = "Str (js ''book'')" and ?w1.0 = "[Request (book_url (js ''7''))]"
      and doc = empty_lazy_page]
  have pa: "pick_img_url book_page = js ''//media3.tadu.com/lazy.jpg''"
    using a online_fetch_book_6 by (simp add: book_page_facts lazy_facts)
  have na: "normalize_url (js ''//media3.tadu.com/lazy.jpg'') = js ''https://media3.tadu.com/lazy.jpg''"
    using a online_fetch_book_6 lazy_facts by metis
  have fa: "meta_fallback book_page (js ''https://media3.tadu.com/lazy.jpg'')
      = js ''https://media3.tadu.com/lazy.jpg''"
    using a online_fetch_book_6 lazy_facts by blast
  have "\<exists>info. crawlBookInfo online (js ''6'') [] = (Inr info, [Request (book_url (js ''6''))]) \<and>
      cover_image info = js ''https://media3.tadu.com/lazy.jpg''"
    using a online_fetch_book_6 by (simp add: pa na fa)
  moreover
  have pb: "pick_img_url empty_lazy_page = js ''/a.jpg''"
    using b empty_lazy_site_fetch by (simp add: empty_lazy_page_facts a_jpg_facts)
  have nb: "normalize_url (js ''/a.jpg'') = js ''https://www.tadu.com/a.jpg''"
    using b empty_lazy_site_fetch a_jpg_facts by metis
  have fb: "meta_fallback empty_lazy_page (js ''https://www.tadu.com/a.jpg'')
      = js ''https://www.tadu.com/a.jpg''"
    using b empty_lazy_site_fetch a_jpg_facts by blast
  have "\<exists>info. crawlBookInfo empty_lazy_site (js ''7'') [] =
              (Inr info, [Request (book_url (js ''7''))]) \<and>
      cover_image info = js ''https://www.tadu.com/a.jpg''"
    using b empty_lazy_site_fetch by (simp add: pb nb fb)
  moreover
  have og: "\<not> startsWith (js ''/'') (js ''https://img.tadu.com/og.jpg'')"
    by (simp add: startsWith_def js_def)
  have "normalize_url (js ''https://img.tadu.com/og.jpg'') = js ''https://img.tadu.com/og.jpg''"
    using b empty_lazy_site_fetch og by blast
  ultimately show ?thesis
    using online_fetch_book_6 empty_lazy_site_fetch book_page_facts empty_lazy_page_facts
      lazy_facts a_jpg_facts og
    by simp
qed

text \<open>
  The claim as it was made, the lazy-load value whenever an image carries the attribute,
  fails on the second page: the first image carrying the attribute has the empty value, and
  the candidate is the \<^verbatim>\<open>src\<close> attribute.
\<close>

theorem C6_counterexample:
  "attr (js ''data-src'') (first (select img_data_src empty_lazy_page)) = Some [] \<and>
   pick_img_url empty_lazy_page = js ''/a.jpg'' \<and>
   js ''/a.jpg'' \<noteq> [] \<and>
   map_sum message cover_image (fst (crawlBookInfo empty_lazy_site (js ''7'') [])) =
     Inr (js ''https://www.tadu.com/a.jpg'')"
proof -
  have pick: "pick_img_url empty_lazy_page = js ''/a.jpg''"
    by (simp add: pick_img_url_direct empty_lazy_page_facts a_jpg_facts)
  have "crawlBookInfo empty_lazy_site (js ''7'') [] =
        (Inr (extract_info (js ''7'') empty_lazy_page), [Request (book_url (js ''7''))])"
    using empty_lazy_site_fetch by (rule crawlBookInfo_ok)
  moreover have "cover_image_of empty_lazy_page = js ''https://www.tadu.com/a.jpg''"
    by (simp add: cover_image_of_def meta_fallback_def pick normalize_url_cases a_jpg_facts)
  ultimately show ?thesis
    by (simp add: pick empty_lazy_page_facts a_jpg_facts extract_info_def)
qed

subsection \<open>C7: the identifiers of a listing\<close>

text \<open>
  Claim C7. For every page number, when the listing page is fetched and parsed,
  \<^verbatim>\<open>getBookIds\<close> returns the identifiers that the pattern finds in the book-cover links of
  the page: each of them once, as a sequence sorted in the lexicographic order of strings
  (in which 50 comes before 6). Each is a non-empty run of digits. A page with no match
  yields the empty sequence, not an error.
\<close>

theorem C7_listing_ids:
  "safeGet E (listing_url page) RETRY_TIMES RETRY_SLEEP_MS w = (Inr p, w1) \<and> load E p = Inr doc \<longrightarrow>
     (\<exists>ids. getBookIds E page w = (Inr ids, w1) \<and> set ids = link_ids doc \<and> distinct ids \<and>
        sorted ids \<and> (link_ids doc = {} \<longrightarrow> ids = []) \<and> (\<forall>m \<in> set ids. digits m)) \<and>
     (\<forall>x y :: jsstring. x < y \<longleftrightarrow> (x, y) \<in> lexord {(c, d). c < d}) \<and>
     js ''50'' < js ''6''"
proof (intro impI conjI allI)
  assume "safeGet E (listing_url page) RETRY_TIMES RETRY_SLEEP_MS w = (Inr p, w1) \<and>
    load E p = Inr doc"
  then obtain ids where ids: "getBookIds E page w = (Inr ids, w1)" "set ids = link_ids doc"
    "distinct ids" "sorted ids"
    using getBookIds_ids by blast
  moreover from ids(2) have "link_ids doc = {} \<longrightarrow> ids = []" by auto
  moreover from ids(2) have "\<forall>m \<in> set ids. digits m"
    by (simp add: link_ids_digits)
  ultimately show "\<exists>ids. getBookIds E page w = (Inr ids, w1) \<and> set ids = link_ids doc \<and>
      distinct ids \<and> sorted ids \<and> (link_ids doc = {} \<longrightarrow> ids = []) \<and> (\<forall>m \<in> set ids. digits m)"
    by blast
next
  fix x y :: jsstring
  show "x < y \<longleftrightarrow> (x, y) \<in> lexord {(c, d). c < d}"
    by (simp add: list_less_def)
next
  show "js ''50'' < js ''6''"
    by (rule fifty_before_six)
qed

text \<open>
  The listing of the test site, which links to book 6 twice and to book 50 once; and a
  listing without links.
\<close>

theorem C7_listing_ids_witness:
  "safeGet online (listing_url (Finite 1)) RETRY_TIMES RETRY_SLEEP_MS [] =
     (Inr (Str (js ''listing'')), [Request (listing_url (Finite 1))]) \<and>
   load online (Str (js ''listing'')) = Inr listing_page \<and>
   getBookIds online (Finite 1) [] =
     (Inr [js ''50'', js ''6''], [Request (listing_url (Finite 1))]) \<and>
   set [js ''50'', js ''6''] = link_ids listing_page \<and>
   sorted [js ''50'', js ''6''] \<and>
   safeGet empty_shop (listing_url (Finite 1)) RETRY_TIMES RETRY_SLEEP_MS [] =
     (Inr (Str (js ''listing'')), [Request (listing_url (Finite 1))]) \<and>
   load empty_shop (Str (js ''listing'')) = Inr [] \<and>
   link_ids [] = {} \<and>
   getBookIds empty_shop (Finite 1) [] = (Inr [], [Request (listing_url (Finite 1))])"
proof -
  note a = C7_listing_ids [where E = online and page = "Finite 1" and w = "[]"
      and p = "Str (js ''listing'')" and ?w1.0 = "[Request (listing_url (Finite 1))]"
      and doc = listing_page]
  note b = C7_listing_ids [where E = empty_shop and page = "Finite 1" and w = "[]"
      and p = "Str (js ''listing'')" and ?w1.0 = "[Request (listing_url (Finite 1))]"
      and doc = "[]"]
  have "set [js ''50'', js ''6''] = link_ids listing_page \<and> sorted [js ''50'', js ''6'']"
    using a online_fetch_listing by (simp add: online_listing)
  moreover have "getBookIds empty_shop (Finite 1) [] = (Inr [], [Request (listing_url (Finite 1))])"
    using b empty_shop_fetch_listing by (auto simp: link_ids_Nil)
  ultimately show ?thesis
    using online_fetch_listing empty_shop_fetch_listing online_listing link_ids_Nil
    by simp
qed

subsection \<open>C8: the title of a chapter\<close>

text \<open>
  Claim C8. When the chapter page is fetched and parsed, at whichever attempt, the title is
  the trimmed text of the second \<^verbatim>\<open>h4\<close> element if the page has at least two, else the
  trimmed text of the first if it has one, else the default title of the chapter index. The
  default title is the word \<^verbatim>\<open>Ch\<close>\<open>\<dots>\<close>\<^verbatim>\<open>ng\<close> (Vietnamese for chapter, spelled in code units
  below), a space and the index in decimal.
\<close>

theorem C8_title_selection:
  "safeGet E (chapter_url b i) RETRY_TIMES RETRY_SLEEP_MS w = (Inr p, w1) \<and> load E p = Inr doc \<and>
   h4s = select (has_tag (js ''h4'')) doc \<and> attempt \<le> RETRY_TIMES \<longrightarrow>
     crawlChapterTitle E b i w =
       (Inr (if 2 \<le> length h4s then trim (textContent (h4s ! 1))
             else if 1 \<le> length h4s then trim (textContent (h4s ! 0))
             else default_title i), w1) \<and>
     crawlChapterTitle_from E b i attempt w = crawlChapterTitle E b i w \<and>
     default_title i = [0x43, 0x68, 0x1B0, 0x1A1, 0x6E, 0x67, 0x20] @ decimal i"
proof (intro impI conjI)
  assume h: "safeGet E (chapter_url b i) RETRY_TIMES RETRY_SLEEP_MS w = (Inr p, w1) \<and>
    load E p = Inr doc \<and> h4s = select (has_tag (js ''h4'')) doc \<and> attempt \<le> RETRY_TIMES"
  then have top: "crawlChapterTitle E b i w = (Inr (pick_title doc i), w1)"
    by (simp add: crawlChapterTitle_ok)
  with h show "crawlChapterTitle E b i w =
       (Inr (if 2 \<le> length h4s then trim (textContent (h4s ! 1))
             else if 1 \<le> length h4s then trim (textContent (h4s ! 0))
             else default_title i), w1)"
    by (simp add: pick_title_def Let_def)
  from h show "crawlChapterTitle_from E b i attempt w = crawlChapterTitle E b i w"
    by (simp add: top crawlChapterTitle_from_ok)
next
  show "default_title i = [0x43, 0x68, 0x1B0, 0x1A1, 0x6E, 0x67, 0x20] @ decimal i"
    by (simp add: default_title_def)
qed

text \<open>
  The chapter page of the test site, with two headings; and a site whose pages are empty.
\<close>

theorem C8_title_selection_witness:
  "safeGet online (chapter_url (js ''6'') 2) RETRY_TIMES RETRY_SLEEP_MS [] =
     (Inr (Str (js ''chapter'')), [Request (chapter_url (js ''6'') 2)]) \<and>
   load online (Str (js ''chapter'')) = Inr chapter_page \<and>
   select (has_tag (js ''h4'')) chapter_page =
     [Element (js ''h4'') [] [TextNode (js ''Book'')],
      Element (js ''h4'') [] [TextNode (js '' Chapter One '')]] \<and>
   (2::nat) \<le> RETRY_TIMES \<and>
   crawlChapterTitle online (js ''6'') 2 [] =
     (Inr (js ''Chapter One''), [Request (chapter_url (js ''6'') 2)]) \<and>
   crawlChapterTitle_from online (js ''6'') 2 2 [] =
     (Inr (js ''Chapter One''), [Request (chapter_url (js ''6'') 2)]) \<and>
   safeGet empty_shop (chapter_url (js ''6'') 2) RETRY_TIMES RETRY_SLEEP_MS [] =
     (Inr (Str (js ''chapter'')), [Request (chapter_url (js ''6'') 2)]) \<and>
   load empty_shop (Str (js ''chapter'')) = Inr [] \<and>
   crawlChapterTitle empty_shop (js ''6'') 2 [] =
     (Inr (default_title 2), [Request (chapter_url (js ''6'') 2)])"
proof -
  note a = C8_title_selection [where E = online and b = "js ''6''" and i = 2 and w = "[]"
      and p = "Str (js ''chapter'')" and ?w1.0 = "[Request (chapter_url (js ''6'') 2)]"
      and doc = chapter_page and attempt = 2
      and h4s = "[Element (js ''h4'') [] [TextNode (js ''Book'')],
                  Element (js ''h4'') [] [TextNode (js '' Chapter One '')]]"]
  note b = C8_title_selection [where E = empty_shop and b = "js ''6''" and i = 2 and w = "[]"
      and p = "Str (js ''chapter'')" and ?w1.0 = "[Request (chapter_url (js ''6'') 2)]"
      and doc = "[]" and attempt = 2 and h4s = "[]"]
  have r: "(2::nat) \<le> RETRY_TIMES" by (simp add: RETRY_TIMES_def)
  have "crawlChapterTitle online (js ''6'') 2 [] =
     (Inr (js ''Chapter One''), [Request (chapter_url (js ''6'') 2)]) \<and>
   crawlChapterTitle_from online (js ''6'') 2 2 [] =
     (Inr (js ''Chapter One''), [Request (chapter_url (js ''6'') 2)])"
    using a online_fetch_chapter r by (simp add: chapter_page_h4s trim_chapter_one)
  moreover have "crawlChapterTitle empty_shop (js ''6'') 2 [] =
     (Inr (default_title 2), [Request (chapter_url (js ''6'') 2)])"
    using b empty_shop_fetch_chapter r by (simp add: select_def all_elements_def)
  ultimately show ?thesis
    using online_fetch_chapter empty_shop_fetch_chapter chapter_page_h4s r by simp
qed


text \<open>
  The claim as it was made names the default title \<^verbatim>\<open>Chapter {index}\<close>. On the empty page the
  title of chapter 2 is the Vietnamese word followed by 2, which is another string.
\<close>

theorem C8_counterexample:
  "fst (crawlChapterTitle empty_shop (js ''6'') 2 []) =
     Inr [0x43, 0x68, 0x1B0, 0x1A1, 0x6E, 0x67, 0x20, 0x32] \<and>
   [0x43, 0x68, 0x1B0, 0x1A1, 0x6E, 0x67, 0x20, 0x32] \<noteq> js ''Chapter 2''"
proof -
  have "crawlChapterTitle empty_shop (js ''6'') 2 [] =
        (Inr (pick_title [] 2), [Request (chapter_url (js ''6'') 2)])"
    using empty_shop_fetch_chapter by (rule crawlChapterTitle_ok)
  moreover have "pick_title [] 2 = [0x43, 0x68, 0x1B0, 0x1A1, 0x6E, 0x67, 0x20, 0x32]"
    by (simp add: pick_title_def select_def all_elements_def default_title_def decimal.simps)
  ultimately show ?thesis
    by (simp add: js_def)
qed

subsection \<open>C9: the content of a chapter\<close>



subsection \<open>C10: a chapter count that is not a positive number\<close>

text \<open>
  Claim C10. When \<^verbatim>\<open>parseInt\<close> of the \<^verbatim>\<open>num_chapters\<close> parameter is NaN or is not positive,
  \<^verbatim>\<open>crawlFirstNChapters\<close> returns the empty sequence without requesting anything, for every
  book; and the request, given that the listing shows some book and the metadata of every
  book can be fetched, is answered with status 200, every record with an empty sequence of
  chapters.
\<close>

theorem C10_no_chapters:
  "n = parseInt E (or_default qn (js ''5'')) \<and>
   (n = NaN \<or> n = NegInfinity \<or> (\<exists>k. n = Finite k \<and> k \<le> 0)) \<longrightarrow>
     crawlFirstNChapters E b n w = (Inr [], w) \<and>
     (getBookIds E (parseInt E (or_default qp (js ''1''))) w = (Inr ids, w1) \<and> ids \<noteq> [] \<and>
      (\<forall>b \<in> set ids. \<forall>w0. \<not> isl (fst (crawlBookInfo E b w0))) \<longrightarrow>
        (\<exists>rs w'. crawl E qp qn w = (Response 200 (Results rs), w') \<and> map book_id rs = ids \<and>
           (\<forall>r \<in> set rs. chapters r = [])))"
proof (intro impI conjI)
  assume n: "n = parseInt E (or_default qn (js ''5'')) \<and>
   (n = NaN \<or> n = NegInfinity \<or> (\<exists>k. n = Finite k \<and> k \<le> 0))"
  then have len: "ToLength n = 0" by auto
  then show "crawlFirstNChapters E b n w = (Inr [], w)"
    by (rule crawlFirstNChapters_empty)
  assume h: "getBookIds E (parseInt E (or_default qp (js ''1''))) w = (Inr ids, w1) \<and> ids \<noteq> [] \<and>
      (\<forall>b \<in> set ids. \<forall>w0. \<not> isl (fst (crawlBookInfo E b w0)))"
  from n len have "ToLength (parseInt E (or_default qn (js ''5''))) \<le> max_length E" by simp
  with h obtain rs w' where run: "crawl E qp qn w = (Response 200 (Results rs), w')"
    using crawl_succeeds by blast
  then have "fst (crawl E qp qn w) = Response 200 (Results rs)" by simp
  from crawl_results [OF _ _ this] h
  have m: "map book_id rs = ids"
    and c: "\<forall>r \<in> set rs. \<exists>w2 w3. crawlFirstNChapters E (book_id r)
             (parseInt E (or_default qn (js ''5''))) w2 = (Inr (chapters r), w3)"
    by blast+
  have "chapters r = []" if "r \<in> set rs" for r
  proof -
    from c that obtain w2 w3 where "crawlFirstNChapters E (book_id r) n w2 = (Inr (chapters r), w3)"
      using n by blast
    then show ?thesis
      by (simp add: crawlFirstNChapters_empty [OF len])
  qed
  with run m show "\<exists>rs w'. crawl E qp qn w = (Response 200 (Results rs), w') \<and>
      map book_id rs = ids \<and> (\<forall>r \<in> set rs. chapters r = [])"
    by blast
qed

text \<open>The test site, asked for \<^verbatim>\<open>num_chapters=x\<close> and for \<^verbatim>\<open>num_chapters=0\<close>.\<close>

theorem C10_no_chapters_witness:
  "parseInt online (or_default (Some (js ''x'')) (js ''5'')) = NaN \<and>
   parseInt online (or_default (Some (js ''0'')) (js ''5'')) = Finite 0 \<and>
   crawlFirstNChapters online (js ''6'') NaN [] = (Inr [], []) \<and>
   crawlFirstNChapters online (js ''6'') (Finite 0) [] = (Inr [], []) \<and>
   getBookIds online (Finite 1) [] =
     (Inr [js ''50'', js ''6''], [Request (listing_url (Finite 1))]) \<and>
   (\<forall>w0. \<not> isl (fst (crawlBookInfo online (js ''50'') w0))) \<and>
   (\<forall>w0. \<not> isl (fst (crawlBookInfo online (js ''6'') w0))) \<and>
   (\<exists>rs w'. crawl online None (Some (js ''x'')) [] = (Response 200 (Results rs), w') \<and>
      map book_id rs = [js ''50'', js ''6''] \<and> (\<forall>r \<in> set rs. chapters r = [])) \<and>
   (\<exists>rs w'. crawl online None (Some (js ''0'')) [] = (Response 200 (Results rs), w') \<and>
      map book_id rs = [js ''50'', js ''6''] \<and> (\<forall>r \<in> set rs. chapters r = []))"
proof -
  note a = C10_no_chapters [where E = online and qp = None and qn = "Some (js ''x'')"
      and n = NaN and w = "[]" and ids = "[js ''50'', js ''6'']" and b = "js ''6''"
      and ?w1.0 = "[Request (listing_url (Finite 1))]"]
  note b = C10_no_chapters [where E = online and qp = None and qn = "Some (js ''0'')"
      and n = "Finite 0" and w = "[]" and ids = "[js ''50'', js ''6'']" and b = "js ''6''"
      and ?w1.0 = "[Request (listing_url (Finite 1))]"]
  have ne: "js ''x'' \<noteq> []" "js ''0'' \<noteq> []" by (simp_all add: js_def)
  have "crawlFirstNChapters online (js ''6'') NaN [] = (Inr [], []) \<and>
    (\<exists>rs w'. crawl online None (Some (js ''x'')) [] = (Response 200 (Results rs), w') \<and>
      map book_id rs = [js ''50'', js ''6''] \<and> (\<forall>r \<in> set rs. chapters r = []))"
    using a by (simp add: ne online_parseInt online_listing online_books)
  moreover have "crawlFirstNChapters online (js ''6'') (Finite 0) [] = (Inr [], []) \<and>
    (\<exists>rs w'. crawl online None (Some (js ''0'')) [] = (Response 200 (Results rs), w') \<and>
      map book_id rs = [js ''50'', js ''6''] \<and> (\<forall>r \<in> set rs. chapters r = []))"
    using b by (simp add: ne online_parseInt online_listing online_books)
  ultimately show ?thesis
    by (simp add: ne online_parseInt online_listing online_books)
qed

end
